theory Spec2Isabelle
  imports Complex_Main
begin

section \<open>Data model (models.py)\<close>

text \<open>
  The pydantic models of \<^verbatim>\<open>models.py\<close> that the orchestrator reads and writes.
  \<^verbatim>\<open>ApprovedSource\<close> and \<^verbatim>\<open>WBPartsManufacturer\<close> carry the same three
  fields; the second record prefixes them with \<^verbatim>\<open>mfr_\<close>. The dictionaries built by
  \<^verbatim>\<open>get_unique_suppliers_list\<close> have the keys \<^verbatim>\<open>companyName\<close>,
  \<^verbatim>\<open>cageCode\<close>, \<^verbatim>\<open>partNumber\<close>.
\<close>

record ApprovedSource =
  cage_code :: string
  part_number :: string
  company_name :: string

record WBPartsManufacturer =
  mfr_part_number :: string
  mfr_cage_code :: string
  mfr_company_name :: string

record supplier =
  companyName :: string
  cageCode :: string
  partNumber :: string

section \<open>Stage B: merge and dedupe (core.py, get\_unique\_suppliers\_list)\<close>

text \<open>The key is the f-string \<^verbatim>\<open>f"{company_name}|{cage_code}"\<close>.\<close>

definition supplier_key :: "string \<Rightarrow> string \<Rightarrow> string" where
  "supplier_key name cage = name @ ''|'' @ cage"

text \<open>
  One iteration of each of the two loops. The state is the pair of the set \<^verbatim>\<open>seen\<close>
  and the list \<^verbatim>\<open>suppliers\<close>; the guard is
  \<^verbatim>\<open>key not in seen and source.company_name\<close>, where a string is truthy when it
  is not empty.
\<close>

definition add_dibbs_source ::
  "string set \<times> supplier list \<Rightarrow> ApprovedSource \<Rightarrow> string set \<times> supplier list" where
  "add_dibbs_source st source =
     (let key = supplier_key (company_name source) (cage_code source) in
      if key \<notin> fst st \<and> company_name source \<noteq> []
      then (insert key (fst st),
            snd st @ [\<lparr>companyName = company_name source,
                       cageCode = cage_code source,
                       partNumber = part_number source\<rparr>])
      else st)"

definition add_wbparts_mfr ::
  "string set \<times> supplier list \<Rightarrow> WBPartsManufacturer \<Rightarrow> string set \<times> supplier list" where
  "add_wbparts_mfr st mfr =
     (let key = supplier_key (mfr_company_name mfr) (mfr_cage_code mfr) in
      if key \<notin> fst st \<and> mfr_company_name mfr \<noteq> []
      then (insert key (fst st),
            snd st @ [\<lparr>companyName = mfr_company_name mfr,
                       cageCode = mfr_cage_code mfr,
                       partNumber = mfr_part_number mfr\<rparr>])
      else st)"

definition get_unique_suppliers_list ::
  "ApprovedSource list \<Rightarrow> WBPartsManufacturer list \<Rightarrow> supplier list" where
  "get_unique_suppliers_list dibbs_sources wbparts_mfrs =
     snd (foldl add_wbparts_mfr (foldl add_dibbs_source ({}, []) dibbs_sources) wbparts_mfrs)"

subsection \<open>The merge as the specification words it\<close>

text \<open>
  The entity a source row stands for, the composite identity (name, secondary id), and
  the deduplication that keeps the first occurrence of every key in insertion order.
  \<open>merged_union_spec\<close> is the specification's sentence: the union of both entity lists,
  deduplicated by the composite identity.
\<close>

definition of_dibbs :: "ApprovedSource \<Rightarrow> supplier" where
  "of_dibbs source = \<lparr>companyName = company_name source, cageCode = cage_code source,
                      partNumber = part_number source\<rparr>"

definition of_wbparts :: "WBPartsManufacturer \<Rightarrow> supplier" where
  "of_wbparts mfr = \<lparr>companyName = mfr_company_name mfr, cageCode = mfr_cage_code mfr,
                     partNumber = mfr_part_number mfr\<rparr>"

fun first_occurrences :: "('a \<Rightarrow> 'k) \<Rightarrow> 'a list \<Rightarrow> 'a list" where
  "first_occurrences k [] = []"
| "first_occurrences k (x # xs) = x # first_occurrences k (filter (\<lambda>y. k y \<noteq> k x) xs)"

definition identity_pair :: "supplier \<Rightarrow> string \<times> string" where
  "identity_pair s = (companyName s, cageCode s)"

definition key_of :: "supplier \<Rightarrow> string" where
  "key_of s = supplier_key (companyName s) (cageCode s)"

definition merged_union_spec ::
  "ApprovedSource list \<Rightarrow> WBPartsManufacturer list \<Rightarrow> supplier list" where
  "merged_union_spec ds ms = first_occurrences identity_pair (map of_dibbs ds @ map of_wbparts ms)"

definition no_pipe_in_cage :: "supplier list \<Rightarrow> bool" where
  "no_pipe_in_cage xs = list_all (\<lambda>s. CHR ''|'' \<notin> set (cageCode s)) xs"

text \<open>The loop of the source with the state made an argument, over entities.\<close>

fun accumulate :: "string set \<Rightarrow> supplier list \<Rightarrow> supplier list" where
  "accumulate seen [] = []"
| "accumulate seen (s # ss) =
     (if key_of s \<notin> seen \<and> companyName s \<noteq> [] then s # accumulate (insert (key_of s) seen) ss
      else accumulate seen ss)"

subsection \<open>Sample rows\<close>

definition acme1 :: ApprovedSource where
  "acme1 = \<lparr>cage_code = ''123'', part_number = ''P1'', company_name = ''Acme''\<rparr>"

definition beta1 :: ApprovedSource where
  "beta1 = \<lparr>cage_code = ''456'', part_number = ''P2'', company_name = ''Beta''\<rparr>"

definition acme2 :: WBPartsManufacturer where
  "acme2 = \<lparr>mfr_part_number = ''P9'', mfr_cage_code = ''123'', mfr_company_name = ''Acme''\<rparr>"

definition gamma2 :: WBPartsManufacturer where
  "gamma2 = \<lparr>mfr_part_number = ''P3'', mfr_cage_code = ''789'', mfr_company_name = ''Gamma''\<rparr>"

definition nameless :: ApprovedSource where
  "nameless = \<lparr>cage_code = ''1ABC5'', part_number = ''P7'', company_name = []\<rparr>"

section \<open>Results, statuses and exceptions\<close>

text \<open>
  Exceptions are values. \<open>RuntimeError\<close> and \<open>OtherException\<close> stand for subclasses of
  Python's \<^verbatim>\<open>Exception\<close>, each with its message \<^verbatim>\<open>str(e)\<close>;
  \<open>CancelledError\<close> derives from \<^verbatim>\<open>BaseException\<close>, which
  \<^verbatim>\<open>except Exception\<close> does not catch. A call returns, raises or never
  returns.
\<close>

datatype exn = RuntimeError string | OtherException string | CancelledError

fun is_Exception :: "exn \<Rightarrow> bool" where
  "is_Exception (RuntimeError m) = True"
| "is_Exception (OtherException m) = True"
| "is_Exception CancelledError = False"

fun str_exn :: "exn \<Rightarrow> string" where
  "str_exn (RuntimeError m) = m"
| "str_exn (OtherException m) = m"
| "str_exn CancelledError = []"

datatype 'a outcome = Returns 'a | Raises exn | Hangs

datatype confidence = High | Medium | Low

record SupplierContact =
  contact_company_name :: string
  email :: "string option"
  phone :: "string option"
  address :: "string option"
  website :: "string option"
  confidence :: confidence

record SupplierWithContact =
  swc_company_name :: string
  swc_cage_code :: string
  swc_part_number :: string
  contact :: "SupplierContact option"

record RFQData =
  nsn :: string
  nomenclature :: string
  approved_sources :: "ApprovedSource list"
  has_open_rfqs :: bool

record ScrapeResult =
  success :: bool
  data :: "RFQData option"
  error :: "string option"

record WBPartsData =
  wb_nsn :: string
  item_name :: string
  manufacturers :: "WBPartsManufacturer list"

record WBPartsScrapeResult =
  wb_success :: bool
  wb_data :: "WBPartsData option"
  wb_error :: "string option"

datatype stage_status = Success | Error | Skipped | Partial | Partial_timeout

record WorkflowStatus =
  dibbs_status :: stage_status
  wbparts_status :: stage_status
  firecrawl_status :: stage_status

record RawData =
  dibbs :: "RFQData option"
  wbparts :: "WBPartsData option"

record EnhancedRFQResult =
  res_nsn :: string
  res_item_name :: string
  has_open_rfq :: bool
  suppliers :: "SupplierWithContact list"
  raw_data :: RawData
  workflow :: WorkflowStatus
  scraped_at :: string

section \<open>Helpers (utils/helpers.py)\<close>

definition is_digit :: "char \<Rightarrow> bool" where
  "is_digit c = (c \<in> set ''0123456789'')"

definition digits :: "nat \<Rightarrow> string \<Rightarrow> bool" where
  "digits n s = (length s = n \<and> list_all is_digit s)"

text \<open>
  \<^verbatim>\<open>re.match\<close> with a pattern that ends in \<^verbatim>\<open>$\<close> accepts the pattern
  followed by one final newline as well.
\<close>

definition strip_final_newline :: "string \<Rightarrow> string" where
  "strip_final_newline s = (if s \<noteq> [] \<and> last s = CHR 0x0A then butlast s else s)"

definition pattern_with_dashes :: "string \<Rightarrow> bool" where
  "pattern_with_dashes p =
     (digits 4 (take 4 p) \<and> take 1 (drop 4 p) = ''-'' \<and>
      digits 2 (take 2 (drop 5 p)) \<and> take 1 (drop 7 p) = ''-'' \<and>
      digits 3 (take 3 (drop 8 p)) \<and> take 1 (drop 11 p) = ''-'' \<and>
      digits 4 (drop 12 p))"

definition pattern_without_dashes :: "string \<Rightarrow> bool" where
  "pattern_without_dashes p = digits 13 p"

definition validate_nsn :: "string \<Rightarrow> bool" where
  "validate_nsn n =
     (pattern_with_dashes (strip_final_newline n) \<or>
      pattern_without_dashes (strip_final_newline n))"

definition format_nsn_with_dashes :: "string \<Rightarrow> string" where
  "format_nsn_with_dashes n =
     (let clean = filter (\<lambda>c. c \<noteq> CHR ''-'') n in
      if length clean \<noteq> 13 then n
      else take 4 clean @ ''-'' @ take 2 (drop 4 clean) @ ''-'' @
           take 3 (drop 6 clean) @ ''-'' @ take 4 (drop 9 clean))"

text \<open>Decimal rendering of a number inside an f-string.\<close>

fun str_nat :: "nat \<Rightarrow> string" where
  "str_nat n =
     (if n < 10 then [char_of (48 + n)]
      else str_nat (n div 10) @ [char_of (48 + n mod 10)])"

declare str_nat.simps [simp del]

section \<open>The workflow for one item (core.py, scrape\_nsn)\<close>

text \<open>
  Everything \<^verbatim>\<open>scrape_nsn\<close> obtains from outside is a field of the environment:
  whether the pool is started and what \<^verbatim>\<open>browser_pool.get_context()\<close> does
  (\<open>None\<close>: a context is yielded), what each source fetch does (with the pooled context
  or without), the configuration, the readings of \<^verbatim>\<open>time.monotonic()\<close> at the
  start of the call, where the deadline is set, at the check of each enrichment task and at
  the final log line, what \<^verbatim>\<open>find_supplier_contact\<close> does for a name and a CAGE
  code, and the time stamp. \<open>dibbs_raises_first\<close> says whose exception
  \<^verbatim>\<open>asyncio.gather\<close> sees first when both fetches raise. The readings of the
  clock are real numbers and the deadline is computed exactly; the rounding of the
  floating-point sum and difference of the source is not modelled.
\<close>

record workflow_env =
  pool_started :: bool
  lease :: "exn option"
  dibbs_fetch :: "string \<Rightarrow> bool \<Rightarrow> exn + ScrapeResult"
  wbparts_fetch :: "string \<Rightarrow> bool \<Rightarrow> exn + WBPartsScrapeResult"
  dibbs_raises_first :: bool
  firecrawl_configured :: bool
  FIRECRAWL_CONCURRENCY :: int
  t_start :: real
  t_deadline_set :: real
  t_check :: "nat \<Rightarrow> real"
  t_finish :: real
  find_supplier_contact :: "string \<Rightarrow> string \<Rightarrow> exn + SupplierContact option"
  get_timestamp :: string

type_synonym progress_callback = "nat \<Rightarrow> string \<Rightarrow> exn option"

definition noop_progress :: progress_callback where
  "noop_progress step message = None"

definition gather2 ::
  "bool \<Rightarrow> exn + 'a \<Rightarrow> exn + 'b \<Rightarrow> ('a \<times> 'b) outcome" where
  "gather2 first_wins a b =
     (case (a, b) of
        (Inr x, Inr y) \<Rightarrow> Returns (x, y)
      | (Inl e, Inr y) \<Rightarrow> Raises e
      | (Inr x, Inl e) \<Rightarrow> Raises e
      | (Inl e1, Inl e2) \<Rightarrow> Raises (if first_wins then e1 else e2))"

text \<open>Stage A: both fetches, on a leased context when the pool is started.\<close>

definition stage_a ::
  "workflow_env \<Rightarrow> string \<Rightarrow> (ScrapeResult \<times> WBPartsScrapeResult) outcome" where
  "stage_a env n =
     (if pool_started env then
        (case lease env of
           Some e \<Rightarrow> Raises e
         | None \<Rightarrow> gather2 (dibbs_raises_first env) (dibbs_fetch env n True) (wbparts_fetch env n True))
      else gather2 (dibbs_raises_first env) (dibbs_fetch env n False) (wbparts_fetch env n False))"

text \<open>
  Stage B: the rows of each source that returned data, merged, then cut to the first
  \<^verbatim>\<open>max_suppliers\<close> when that is positive and smaller than the list.
\<close>

definition dibbs_sources_of :: "ScrapeResult \<Rightarrow> ApprovedSource list" where
  "dibbs_sources_of dibbs_result =
     (case data dibbs_result of Some d \<Rightarrow> approved_sources d | None \<Rightarrow> [])"

definition wbparts_mfrs_of :: "WBPartsScrapeResult \<Rightarrow> WBPartsManufacturer list" where
  "wbparts_mfrs_of wbparts_result =
     (case wb_data wbparts_result of Some d \<Rightarrow> manufacturers d | None \<Rightarrow> [])"

definition cap_suppliers :: "int \<Rightarrow> supplier list \<Rightarrow> supplier list" where
  "cap_suppliers max_suppliers all_suppliers =
     (if max_suppliers > 0 \<and> int (length all_suppliers) > max_suppliers
      then take (nat max_suppliers) all_suppliers else all_suppliers)"

definition stage_b :: "ScrapeResult \<Rightarrow> WBPartsScrapeResult \<Rightarrow> int \<Rightarrow> supplier list" where
  "stage_b dibbs_result wbparts_result max_suppliers =
     cap_suppliers max_suppliers
       (get_unique_suppliers_list (dibbs_sources_of dibbs_result) (wbparts_mfrs_of wbparts_result))"

text \<open>
  Stage C. One enrichment task yields whether it was skipped at the deadline check (the
  assignment \<^verbatim>\<open>timed_out = True\<close>), the calls it made to the enrichment service,
  and the supplier with its contact. The check precedes the wait for the semaphore; a
  semaphore of value 0 is never acquired.
\<close>

definition without_contact :: "supplier \<Rightarrow> SupplierWithContact" where
  "without_contact s =
     \<lparr>swc_company_name = companyName s, swc_cage_code = cageCode s,
      swc_part_number = partNumber s, contact = None\<rparr>"

definition with_contact :: "supplier \<Rightarrow> SupplierContact option \<Rightarrow> SupplierWithContact" where
  "with_contact s c =
     \<lparr>swc_company_name = companyName s, swc_cage_code = cageCode s,
      swc_part_number = partNumber s, contact = c\<rparr>"

record task_result =
  skipped_at_deadline :: bool
  service_calls :: "(string \<times> string) list"
  entity :: SupplierWithContact

definition deadline_reached :: "real option \<Rightarrow> real \<Rightarrow> bool" where
  "deadline_reached deadline now =
     (case deadline of None \<Rightarrow> False | Some d \<Rightarrow> d - now \<le> 5)"

definition discover_one ::
  "workflow_env \<Rightarrow> real option \<Rightarrow> nat \<Rightarrow> supplier \<Rightarrow> task_result outcome" where
  "discover_one env deadline idx s =
     (if deadline_reached deadline (t_check env idx) then
        Returns \<lparr>skipped_at_deadline = True, service_calls = [], entity = without_contact s\<rparr>
      else if FIRECRAWL_CONCURRENCY env = 0 then Hangs
      else
        (case find_supplier_contact env (companyName s) (cageCode s) of
           Inl e \<Rightarrow>
             if is_Exception e then
               Returns \<lparr>skipped_at_deadline = False,
                        service_calls = [(companyName s, cageCode s)],
                        entity = with_contact s None\<rparr>
             else Raises e
         | Inr c \<Rightarrow>
             Returns \<lparr>skipped_at_deadline = False,
                      service_calls = [(companyName s, cageCode s)],
                      entity = with_contact s c\<rparr>))"

text \<open>
  \<^verbatim>\<open>asyncio.gather\<close> over the tasks: the results in the order of the tasks; an
  exception of a task is raised to the caller (the list order stands for the order in
  time); otherwise a task that never finishes keeps the caller waiting.
\<close>

fun first_raise :: "'a outcome list \<Rightarrow> exn option" where
  "first_raise [] = None"
| "first_raise (Raises e # os) = Some e"
| "first_raise (other # os) = first_raise os"

fun returned :: "'a outcome list \<Rightarrow> 'a list option" where
  "returned [] = Some []"
| "returned (Returns x # os) = (case returned os of Some xs \<Rightarrow> Some (x # xs) | None \<Rightarrow> None)"
| "returned (other # os) = None"

definition gather :: "'a outcome list \<Rightarrow> 'a list outcome" where
  "gather os =
     (case first_raise os of
        Some e \<Rightarrow> Raises e
      | None \<Rightarrow> (case returned os of Some xs \<Rightarrow> Returns xs | None \<Rightarrow> Hangs))"

definition counts_as_success :: "SupplierWithContact \<Rightarrow> bool" where
  "counts_as_success swc =
     (case contact swc of None \<Rightarrow> False | Some c \<Rightarrow> confidence c \<noteq> Low)"

definition derive_firecrawl_status :: "bool \<Rightarrow> nat \<Rightarrow> nat \<Rightarrow> stage_status" where
  "derive_firecrawl_status timed_out success_count n_suppliers =
     (if timed_out then Partial_timeout
      else if success_count = n_suppliers then Success
      else if success_count > 0 then Partial
      else Error)"

definition run_tasks ::
  "workflow_env \<Rightarrow> real option \<Rightarrow> supplier list \<Rightarrow> task_result list outcome" where
  "run_tasks env deadline all_suppliers =
     gather (map (\<lambda>(idx, s). discover_one env deadline idx s) (enumerate 0 all_suppliers))"

definition status_of_tasks :: "supplier list \<Rightarrow> task_result list \<Rightarrow> stage_status" where
  "status_of_tasks all_suppliers results =
     derive_firecrawl_status (list_ex skipped_at_deadline results)
       (length (filter counts_as_success (map entity results))) (length all_suppliers)"

definition stage_c ::
  "workflow_env \<Rightarrow> real option \<Rightarrow> supplier list \<Rightarrow>
     (stage_status \<times> SupplierWithContact list) outcome" where
  "stage_c env deadline all_suppliers =
     (if all_suppliers \<noteq> [] \<and> firecrawl_configured env then
        if FIRECRAWL_CONCURRENCY env < 0
        then Raises (OtherException ''Semaphore initial value must be >= 0'')
        else
          (case run_tasks env deadline all_suppliers of
             Raises e \<Rightarrow> Raises e
           | Hangs \<Rightarrow> Hangs
           | Returns results \<Rightarrow>
               Returns (status_of_tasks all_suppliers results, map entity results))
      else Returns (Skipped, map without_contact all_suppliers))"

definition deadline_of :: "workflow_env \<Rightarrow> int \<Rightarrow> real option" where
  "deadline_of env timeout_seconds =
     (if timeout_seconds > 0 then Some (t_deadline_set env + real_of_int timeout_seconds)
      else None)"

definition source_status :: "bool \<Rightarrow> stage_status" where
  "source_status ok = (if ok then Success else Error)"

definition build_result ::
  "workflow_env \<Rightarrow> string \<Rightarrow> ScrapeResult \<Rightarrow> WBPartsScrapeResult \<Rightarrow> stage_status \<Rightarrow>
     SupplierWithContact list \<Rightarrow> EnhancedRFQResult" where
  "build_result env n dibbs_result wbparts_result fc_status suppliers_with_contacts =
     \<lparr>res_nsn = (case data dibbs_result of Some d \<Rightarrow> nsn d | None \<Rightarrow> format_nsn_with_dashes n),
      res_item_name =
        (case wb_data wbparts_result of
           Some w \<Rightarrow> item_name w
         | None \<Rightarrow> (case data dibbs_result of Some d \<Rightarrow> nomenclature d | None \<Rightarrow> [])),
      has_open_rfq = (case data dibbs_result of Some d \<Rightarrow> has_open_rfqs d | None \<Rightarrow> False),
      suppliers = suppliers_with_contacts,
      raw_data = \<lparr>dibbs = data dibbs_result, wbparts = wb_data wbparts_result\<rparr>,
      workflow = \<lparr>dibbs_status = source_status (success dibbs_result),
                  wbparts_status = source_status (wb_success wbparts_result),
                  firecrawl_status = fc_status\<rparr>,
      scraped_at = get_timestamp env\<rparr>"

definition scrape_nsn ::
  "workflow_env \<Rightarrow> string \<Rightarrow> progress_callback \<Rightarrow> int \<Rightarrow> int \<Rightarrow> EnhancedRFQResult outcome" where
  "scrape_nsn env n callback max_suppliers timeout_seconds =
     (case callback 1 ''Scraping DIBBS + WBParts...'' of
        Some e \<Rightarrow> Raises e
      | None \<Rightarrow>
     (case stage_a env n of
        Raises e \<Rightarrow> Raises e
      | Hangs \<Rightarrow> Hangs
      | Returns (dibbs_result, wbparts_result) \<Rightarrow>
     (let all_suppliers = stage_b dibbs_result wbparts_result max_suppliers in
      case callback 2 (''Discovering contacts for '' @ str_nat (length all_suppliers) @
                        '' supplier(s)...'') of
        Some e \<Rightarrow> Raises e
      | None \<Rightarrow>
     (case stage_c env (deadline_of env timeout_seconds) all_suppliers of
        Raises e \<Rightarrow> Raises e
      | Hangs \<Rightarrow> Hangs
      | Returns (fc_status, suppliers_with_contacts) \<Rightarrow>
     (case callback 3 ''Building result...'' of
        Some e \<Rightarrow> Raises e
      | None \<Rightarrow>
          Returns (build_result env n dibbs_result wbparts_result fc_status
                     suppliers_with_contacts))))))"

subsection \<open>The status table as the specification words it\<close>

text \<open>
  The table of the specification over the outcomes of the tasks, where a success is an
  attempt that yields a contact, a failure an attempt that yields none, and a timed-out
  entity one skipped at the deadline check.
\<close>

definition spec_successes :: "task_result list \<Rightarrow> nat" where
  "spec_successes results =
     length (filter (\<lambda>r. \<not> skipped_at_deadline r \<and> contact (entity r) \<noteq> None) results)"

definition spec_failures :: "task_result list \<Rightarrow> nat" where
  "spec_failures results =
     length (filter (\<lambda>r. \<not> skipped_at_deadline r \<and> contact (entity r) = None) results)"

definition timed_out_count :: "task_result list \<Rightarrow> nat" where
  "timed_out_count results = length (filter skipped_at_deadline results)"

definition spec_table :: "nat \<Rightarrow> nat \<Rightarrow> nat \<Rightarrow> stage_status" where
  "spec_table succ fail timed =
     (if timed > 0 then Partial_timeout
      else if succ = 0 \<and> fail = 0 then Skipped
      else if fail = 0 then Success
      else if succ > 0 then Partial
      else Error)"

text \<open>The count the code takes for the successes: contacts of confidence high or medium.\<close>

definition code_successes :: "task_result list \<Rightarrow> nat" where
  "code_successes results = length (filter (\<lambda>r. counts_as_success (entity r)) results)"

definition code_failures :: "task_result list \<Rightarrow> nat" where
  "code_failures results =
     length (filter (\<lambda>r. \<not> skipped_at_deadline r \<and> \<not> counts_as_success (entity r)) results)"

subsection \<open>Sample runs\<close>

definition status_of_run :: "EnhancedRFQResult outcome \<Rightarrow> stage_status option" where
  "status_of_run out =
     (case out of Returns r \<Rightarrow> Some (firecrawl_status (workflow r)) | Raises e \<Rightarrow> None | Hangs \<Rightarrow> None)"

definition high_contact :: "string \<Rightarrow> SupplierContact" where
  "high_contact name =
     \<lparr>contact_company_name = name, email = Some ''sales@example.com'',
      phone = Some ''555-0100'', address = Some ''1 Main St'',
      website = Some ''https://example.com'', confidence = High\<rparr>"

definition low_contact :: "string \<Rightarrow> SupplierContact" where
  "low_contact name =
     \<lparr>contact_company_name = name, email = None, phone = None, address = None,
      website = Some ''https://example.com'', confidence = Low\<rparr>"

definition sample_rfq :: RFQData where
  "sample_rfq =
     \<lparr>nsn = ''4520-01-261-9675'', nomenclature = ''HEATER'',
      approved_sources = [acme1], has_open_rfqs = False\<rparr>"

definition dibbs_ok :: ScrapeResult where
  "dibbs_ok = \<lparr>success = True, data = Some sample_rfq, error = None\<rparr>"

definition wbparts_404 :: WBPartsScrapeResult where
  "wbparts_404 =
     \<lparr>wb_success = False, wb_data = None, wb_error = Some ''HTTP 404: Page not found''\<rparr>"

definition base_env :: workflow_env where
  "base_env =
     \<lparr>pool_started = False, lease = None,
      dibbs_fetch = (\<lambda>n pooled. Inr dibbs_ok),
      wbparts_fetch = (\<lambda>n pooled. Inr wbparts_404),
      dibbs_raises_first = True,
      firecrawl_configured = True,
      FIRECRAWL_CONCURRENCY = 3,
      t_start = 0, t_deadline_set = 0, t_check = (\<lambda>i. 0), t_finish = 0,
      find_supplier_contact = (\<lambda>name cage. Inr (Some (high_contact name))),
      get_timestamp = ''2024-01-01T00:00:00Z''\<rparr>"

definition base_result :: EnhancedRFQResult where
  "base_result =
     build_result base_env ''4520012619675'' dibbs_ok wbparts_404 Success
       [with_contact (of_dibbs acme1) (Some (high_contact ''Acme''))]"

text \<open>The enrichment service finds a website only: a contact of confidence low.\<close>

definition low_env :: workflow_env where
  "low_env = base_env\<lparr>find_supplier_contact := (\<lambda>name cage. Inr (Some (low_contact name)))\<rparr>"

definition low_tasks :: "task_result list" where
  "low_tasks =
     [\<lparr>skipped_at_deadline = False, service_calls = [(''Acme'', ''123'')],
       entity = with_contact (of_dibbs acme1) (Some (low_contact ''Acme''))\<rparr>]"

text \<open>
  The two fetches take 30 seconds; the call was given 10 seconds. The clock reads 0 at the
  start, 30 where the deadline is set and at the check of the only task, and 31 at the end.
\<close>

definition late_env :: workflow_env where
  "late_env = base_env\<lparr>t_deadline_set := 30, t_check := (\<lambda>i. 30), t_finish := 31\<rparr>"





definition late_tasks :: "task_result list" where
  "late_tasks =
     [\<lparr>skipped_at_deadline = False, service_calls = [(''Acme'', ''123'')],
       entity = with_contact (of_dibbs acme1) (Some (high_contact ''Acme''))\<rparr>]"

section \<open>Paced-sequential batch (core.py, scrape\_batch)\<close>

datatype batch_status = Pending | Processing | Item_success | Item_error

record BatchNSNResult =
  item_nsn :: string
  item_status :: batch_status
  item_result :: "EnhancedRFQResult option"
  error_message :: "string option"
  processed_at :: "string option"

record BatchProcessingResult =
  total_nsns :: nat
  processed :: nat
  successful :: nat
  failed :: nat
  batch_results :: "BatchNSNResult list"
  started_at :: string
  completed_at :: "string option"

text \<open>
  What a batch obtains from outside: the world each item's workflow runs in (items are
  numbered from 1), the two callbacks (\<open>None\<close>: the callback returns),
  \<^verbatim>\<open>save_result\<close> (\<open>None\<close>: the file is written), the time stamp and the
  configured delay. The events record the calls that cost something: a workflow run, a
  saved file, a pacing sleep.
\<close>

record batch_env =
  workflow_envs :: "nat \<Rightarrow> workflow_env"
  progress_cb :: "nat \<Rightarrow> nat \<Rightarrow> string \<Rightarrow> exn option"
  status_cb :: "nat \<Rightarrow> BatchNSNResult \<Rightarrow> exn option"
  save_result :: "string \<Rightarrow> EnhancedRFQResult \<Rightarrow> exn option"
  batch_timestamp :: string
  BATCH_DELAY :: int

datatype event = Workflow_invoked string | Saved string | Slept
  | Slot_acquired string | Slot_released string

definition noop_batch_progress :: "nat \<Rightarrow> nat \<Rightarrow> string \<Rightarrow> exn option" where
  "noop_batch_progress current n_items message = None"

definition noop_batch_status :: "nat \<Rightarrow> BatchNSNResult \<Rightarrow> exn option" where
  "noop_batch_status nsn_index nsn_result = None"

definition nsn_progress :: "batch_env \<Rightarrow> nat \<Rightarrow> nat \<Rightarrow> progress_callback" where
  "nsn_progress benv n_items idx step message =
     progress_cb benv idx n_items
       (''NSN '' @ str_nat idx @ ''/'' @ str_nat n_items @ '' - Step '' @ str_nat step @
        ''/3: '' @ message)"

definition item_workflow ::
  "batch_env \<Rightarrow> nat \<Rightarrow> nat \<Rightarrow> string \<Rightarrow> EnhancedRFQResult outcome" where
  "item_workflow benv n_items idx formatted_nsn =
     scrape_nsn (workflow_envs benv idx) formatted_nsn (nsn_progress benv n_items idx) 0 0"

text \<open>
  The \<^verbatim>\<open>try\<close> block of one valid item. It yields the entry as the block leaves it
  and what the block added to \<^verbatim>\<open>successful\<close> and to \<^verbatim>\<open>failed\<close>.
  The entry is marked a success and \<^verbatim>\<open>successful\<close> is incremented before
  \<^verbatim>\<open>save_result\<close> is called; the handler catches what derives from
  \<^verbatim>\<open>Exception\<close>.
\<close>

record try_outcome =
  entry :: BatchNSNResult
  successful_added :: nat
  failed_added :: nat
  events :: "event list"

definition try_item :: "batch_env \<Rightarrow> nat \<Rightarrow> nat \<Rightarrow> string \<Rightarrow> try_outcome outcome" where
  "try_item benv n_items idx formatted_nsn =
     (case item_workflow benv n_items idx formatted_nsn of
        Hangs \<Rightarrow> Hangs
      | Raises e \<Rightarrow>
          if is_Exception e then
            Returns \<lparr>entry = \<lparr>item_nsn = formatted_nsn, item_status = Item_error,
                               item_result = None, error_message = Some (str_exn e),
                               processed_at = Some (batch_timestamp benv)\<rparr>,
                     successful_added = 0, failed_added = 1,
                     events = [Workflow_invoked formatted_nsn]\<rparr>
          else Raises e
      | Returns r \<Rightarrow>
          (case save_result benv formatted_nsn r of
             None \<Rightarrow>
               Returns \<lparr>entry = \<lparr>item_nsn = formatted_nsn, item_status = Item_success,
                                  item_result = Some r, error_message = None,
                                  processed_at = Some (batch_timestamp benv)\<rparr>,
                        successful_added = 1, failed_added = 0,
                        events = [Workflow_invoked formatted_nsn, Saved formatted_nsn]\<rparr>
           | Some e \<Rightarrow>
               if is_Exception e then
                 Returns \<lparr>entry = \<lparr>item_nsn = formatted_nsn, item_status = Item_error,
                                    item_result = Some r, error_message = Some (str_exn e),
                                    processed_at = Some (batch_timestamp benv)\<rparr>,
                          successful_added = 1, failed_added = 1,
                          events = [Workflow_invoked formatted_nsn]\<rparr>
               else Raises e))"

definition invalid_entry :: "batch_env \<Rightarrow> string \<Rightarrow> BatchNSNResult" where
  "invalid_entry benv n =
     \<lparr>item_nsn = n, item_status = Item_error, item_result = None,
      error_message = Some (''Invalid NSN format: '' @ n),
      processed_at = Some (batch_timestamp benv)\<rparr>"

definition processing_entry :: "string \<Rightarrow> BatchNSNResult" where
  "processing_entry formatted_nsn =
     \<lparr>item_nsn = formatted_nsn, item_status = Processing, item_result = None,
      error_message = None, processed_at = None\<rparr>"

definition processing_message :: "nat \<Rightarrow> nat \<Rightarrow> string \<Rightarrow> string" where
  "processing_message idx n_items formatted_nsn =
     ''Processing NSN '' @ str_nat idx @ ''/'' @ str_nat n_items @ '': '' @ formatted_nsn"

text \<open>
  One iteration of the loop, on the batch result and the events so far. The status
  callback and the first call of the progress callback are outside the
  \<^verbatim>\<open>try\<close> block: what they raise leaves \<^verbatim>\<open>scrape_batch\<close>.
\<close>

definition process_item ::
  "batch_env \<Rightarrow> nat \<Rightarrow> nat \<Rightarrow> string \<Rightarrow> BatchProcessingResult \<times> event list \<Rightarrow>
     (BatchProcessingResult \<times> event list) outcome" where
  "process_item benv n_items idx n st =
     (let br = fst st; tr = snd st in
      if \<not> validate_nsn n then
        (case status_cb benv idx (invalid_entry benv n) of
           Some e \<Rightarrow> Raises e
         | None \<Rightarrow>
             Returns (br\<lparr>batch_results := batch_results br @ [invalid_entry benv n],
                        processed := processed br + 1, failed := failed br + 1\<rparr>, tr))
      else
        (let formatted_nsn = format_nsn_with_dashes n in
         case progress_cb benv idx n_items (processing_message idx n_items formatted_nsn) of
           Some e \<Rightarrow> Raises e
         | None \<Rightarrow>
        (case status_cb benv idx (processing_entry formatted_nsn) of
           Some e \<Rightarrow> Raises e
         | None \<Rightarrow>
        (case try_item benv n_items idx formatted_nsn of
           Hangs \<Rightarrow> Hangs
         | Raises e \<Rightarrow> Raises e
         | Returns t \<Rightarrow>
        (case status_cb benv idx (entry t) of
           Some e \<Rightarrow> Raises e
         | None \<Rightarrow>
             Returns (br\<lparr>batch_results := batch_results br @ [entry t],
                        successful := successful br + successful_added t,
                        failed := failed br + failed_added t,
                        processed := processed br + 1\<rparr>,
                      tr @ events t @ (if idx < n_items then [Slept] else [])))))))"

fun batch_loop ::
  "batch_env \<Rightarrow> nat \<Rightarrow> nat \<Rightarrow> string list \<Rightarrow> BatchProcessingResult \<times> event list \<Rightarrow>
     (BatchProcessingResult \<times> event list) outcome" where
  "batch_loop benv n_items idx [] st = Returns st"
| "batch_loop benv n_items idx (n # ns) st =
     (case process_item benv n_items idx n st of
        Returns st' \<Rightarrow> batch_loop benv n_items (Suc idx) ns st'
      | Raises e \<Rightarrow> Raises e
      | Hangs \<Rightarrow> Hangs)"

definition new_batch :: "batch_env \<Rightarrow> string list \<Rightarrow> BatchProcessingResult" where
  "new_batch benv nsns =
     \<lparr>total_nsns = length nsns, processed = 0, successful = 0, failed = 0,
      batch_results = [], started_at = batch_timestamp benv, completed_at = None\<rparr>"

definition scrape_batch ::
  "batch_env \<Rightarrow> string list \<Rightarrow> (BatchProcessingResult \<times> event list) outcome" where
  "scrape_batch benv nsns =
     (case batch_loop benv (length nsns) 1 nsns (new_batch benv nsns, []) of
        Returns st \<Rightarrow> Returns ((fst st)\<lparr>completed_at := Some (batch_timestamp benv)\<rparr>, snd st)
      | Raises e \<Rightarrow> Raises e
      | Hangs \<Rightarrow> Hangs)"

text \<open>
  What one item contributes when no callback raises: the entry of an invalid item, or the
  outcome of the \<^verbatim>\<open>try\<close> block on the formatted item.
\<close>

definition item_outcome :: "batch_env \<Rightarrow> nat \<Rightarrow> nat \<Rightarrow> string \<Rightarrow> try_outcome outcome" where
  "item_outcome benv n_items idx n =
     (if \<not> validate_nsn n then
        Returns \<lparr>entry = invalid_entry benv n, successful_added = 0, failed_added = 1,
                 events = []\<rparr>
      else try_item benv n_items idx (format_nsn_with_dashes n))"

text \<open>
  The callbacks that are called outside the \<^verbatim>\<open>try\<close> block return: the status
  callback, and the progress callback on the message that announces an item.
\<close>

definition outer_callbacks_return :: "batch_env \<Rightarrow> bool" where
  "outer_callbacks_return benv =
     ((\<forall>i k f. progress_cb benv i k (processing_message i k f) = None) \<and>
      (\<forall>i r. status_cb benv i r = None))"

text \<open>
  The processing of an item ends: its workflow returns or raises an exception derived from
  \<^verbatim>\<open>Exception\<close>, and so does \<^verbatim>\<open>save_result\<close>.
\<close>

definition item_behaves :: "batch_env \<Rightarrow> nat \<Rightarrow> nat \<Rightarrow> string \<Rightarrow> bool" where
  "item_behaves benv n_items idx n =
     (validate_nsn n \<longrightarrow>
        (case item_workflow benv n_items idx (format_nsn_with_dashes n) of
           Hangs \<Rightarrow> False
         | Raises e \<Rightarrow> is_Exception e
         | Returns r \<Rightarrow>
             (case save_result benv (format_nsn_with_dashes n) r of
                None \<Rightarrow> True
              | Some e \<Rightarrow> is_Exception e)))"

subsection \<open>A sample batch\<close>

definition crashing_env :: workflow_env where
  "crashing_env =
     base_env\<lparr>dibbs_fetch :=
       (\<lambda>n pooled. Inl (OtherException ''Target page, context or browser has been closed''))\<rparr>"

definition five_nsns :: "string list" where
  "five_nsns = [''1000000000001'', ''1000000000002'', ''1000000000003'',
                ''1000000000004'', ''1000000000005'']"

definition sample_batch_env :: batch_env where
  "sample_batch_env =
     \<lparr>workflow_envs = (\<lambda>idx. if idx = 3 then crashing_env else base_env),
      progress_cb = noop_batch_progress,
      status_cb = noop_batch_status,
      save_result = (\<lambda>n r. None),
      batch_timestamp = ''2024-01-01T00:00:00Z'',
      BATCH_DELAY = 500\<rparr>"

text \<open>
  A status callback that writes each successful result to a file, on a full disk.
\<close>

definition disk_full :: exn where
  "disk_full = OtherException ''[Errno 28] No space left on device''"

definition full_disk_env :: batch_env where
  "full_disk_env =
     sample_batch_env\<lparr>status_cb :=
       (\<lambda>idx r. if item_status r = Item_success then Some disk_full else None)\<rparr>"


definition base_result_for :: "string \<Rightarrow> EnhancedRFQResult" where
  "base_result_for n =
     build_result base_env n dibbs_ok wbparts_404 Success
       [with_contact (of_dibbs acme1) (Some (high_contact ''Acme''))]"


section \<open>Bounded-concurrent batch (api.py, scrape\_nsns\_suppliers\_batch\_endpoint)\<close>




section \<open>The browser pool (scrapers/browser\_pool.py)\<close>

text \<open>
  The pool after \<^verbatim>\<open>start()\<close>: the flag \<^verbatim>\<open>_started\<close>, the value of the
  semaphore, the counter \<^verbatim>\<open>_waiting\<close>. The tasks that call
  \<^verbatim>\<open>get_context\<close> are numbered; a task is idle, waits for a slot (with the
  deadline and the timeout of its wait), holds a slot before its context exists, uses its
  context inside its \<^verbatim>\<open>async with\<close> block, or has left
  \<^verbatim>\<open>get_context\<close> (with the exception that came out of it, if any). Beside the
  fields of the object the state keeps the tasks queued on the semaphore, the contexts
  that are open, the slots that are taken and not released, and a clock in ticks.
\<close>

datatype phase = Idle | Waiting_for_slot nat nat | Slot_held | In_use | Left "exn option"

record pool_config =
  MAX_BROWSER_PAGES :: nat
  BROWSER_POOL_TIMEOUT :: nat

record pool_state =
  started :: bool
  semaphore :: nat
  waiting :: int
  queue :: "nat list"
  contexts :: "nat set"
  holders :: "nat set"
  clock :: nat
  phase :: "nat \<Rightarrow> phase"

definition started_pool :: "pool_config \<Rightarrow> pool_state" where
  "started_pool cfg =
     \<lparr>started = True, semaphore = MAX_BROWSER_PAGES cfg, waiting = 0, queue = [],
      contexts = {}, holders = {}, clock = 0, phase = (\<lambda>i. Idle)\<rparr>"

definition str_int :: "int \<Rightarrow> string" where
  "str_int i = (if i < 0 then ''-'' @ str_nat (nat (- i)) else str_nat (nat i))"

definition not_started_error :: exn where
  "not_started_error = RuntimeError ''BrowserPool not started. Call start() first.''"

definition pool_busy_error :: "nat \<Rightarrow> nat \<Rightarrow> int \<Rightarrow> exn" where
  "pool_busy_error timeout max_pages n_waiting =
     RuntimeError (''Browser pool busy: no slot available within '' @ str_nat timeout @
                   ''s (max_pages='' @ str_nat max_pages @ '', waiting='' @
                   str_int n_waiting @ '')'')"

text \<open>
  How the block of a task exits, and what \<^verbatim>\<open>ctx.close()\<close> does in the
  \<^verbatim>\<open>finally\<close> clause. The handler around \<^verbatim>\<open>ctx.close()\<close> is
  \<^verbatim>\<open>except Exception: pass\<close>; \<^verbatim>\<open>self._semaphore.release()\<close> is the
  statement after it.
\<close>

datatype exit_kind = Normal_exit | Exception_exit exn | Cancelled_exit

fun exit_error :: "exit_kind \<Rightarrow> exn option" where
  "exit_error Normal_exit = None"
| "exit_error (Exception_exit e) = Some e"
| "exit_error Cancelled_exit = Some CancelledError"

datatype close_result = Closed | Close_raised exn


text \<open>
  The steps between two suspension points, each with what the world decides in it:
  \<^item> \<open>Call i t\<close>: task \<open>i\<close> enters \<^verbatim>\<open>get_context(timeout=t)\<close>, up to the wait
    for the semaphore; without a timeout the configured one is taken;
  \<^item> \<open>Grant i\<close>: the semaphore, whose value is positive, gives the waiting task a slot;
    the task decrements \<^verbatim>\<open>_waiting\<close>;
  \<^item> \<open>Timeout i\<close>: \<^verbatim>\<open>asyncio.wait_for\<close> raises \<^verbatim>\<open>TimeoutError\<close> in the
    waiting task, at its deadline or later; the handler decrements \<^verbatim>\<open>_waiting\<close>
    and raises the pool's error;
  \<^item> \<open>Cancel_wait i\<close>: the waiting task is cancelled; no handler catches it;
  \<^item> \<open>Open i r\<close>: \<^verbatim>\<open>_ensure_browser\<close> and \<^verbatim>\<open>new_context\<close> for the task
    that holds a slot: the context is yielded (\<open>None\<close>), or an exception is raised and
    the \<^verbatim>\<open>finally\<close> clause, with no context to close, releases the slot;
  \<^item> \<open>Leave i k c\<close>: the block of the task exits in the way \<open>k\<close> and
    \<^verbatim>\<open>ctx.close()\<close> does \<open>c\<close>. When it returns, the context is closed and the
    slot released. When it raises what the handler catches, the exception is dropped and
    the slot released; the context is not known to be closed and stays in the state.
    When it raises anything else, the exception leaves \<^verbatim>\<open>get_context\<close> before
    the release is reached;
  \<^item> \<open>Tick\<close>: a tick of the clock passes;
  \<^item> \<open>Stop\<close> and \<open>Start\<close>: \<^verbatim>\<open>stop()\<close> on a started pool clears the flag and
    closes the browser with its contexts; \<^verbatim>\<open>start()\<close> returns at once on a
    started pool and makes a new semaphore otherwise.
  An event that cannot happen in a state yields \<open>None\<close>.
\<close>

datatype pool_event =
    Call nat "nat option"
  | Grant nat
  | Timeout nat
  | Cancel_wait nat
  | Open nat "exn option"
  | Leave nat exit_kind close_result
  | Tick
  | Stop
  | Start

definition release_slot :: "nat \<Rightarrow> exn option \<Rightarrow> pool_state \<Rightarrow> pool_state" where
  "release_slot i out s =
     s\<lparr>semaphore := semaphore s + 1, holders := holders s - {i},
       phase := (phase s)(i := Left out)\<rparr>"

fun step :: "pool_config \<Rightarrow> pool_state \<Rightarrow> pool_event \<Rightarrow> pool_state option" where
  "step cfg s (Call i timeout) =
     (if phase s i \<noteq> Idle then None
      else if \<not> started s then
        Some (s\<lparr>phase := (phase s)(i := Left (Some not_started_error))\<rparr>)
      else
        (let t = (case timeout of None \<Rightarrow> BROWSER_POOL_TIMEOUT cfg | Some t \<Rightarrow> t) in
         Some (s\<lparr>waiting := waiting s + 1, queue := queue s @ [i],
                 phase := (phase s)(i := Waiting_for_slot (clock s + t) t)\<rparr>)))"
| "step cfg s (Grant i) =
     (case phase s i of
        Waiting_for_slot deadline t \<Rightarrow>
          if semaphore s > 0 then
            Some (s\<lparr>semaphore := semaphore s - 1, waiting := waiting s - 1,
                    queue := removeAll i (queue s), holders := insert i (holders s),
                    phase := (phase s)(i := Slot_held)\<rparr>)
          else None
      | _ \<Rightarrow> None)"
| "step cfg s (Timeout i) =
     (case phase s i of
        Waiting_for_slot deadline t \<Rightarrow>
          if deadline \<le> clock s then
            Some (s\<lparr>waiting := waiting s - 1, queue := removeAll i (queue s),
                    phase := (phase s)(i := Left (Some
                      (pool_busy_error t (MAX_BROWSER_PAGES cfg) (waiting s - 1))))\<rparr>)
          else None
      | _ \<Rightarrow> None)"
| "step cfg s (Cancel_wait i) =
     (case phase s i of
        Waiting_for_slot deadline t \<Rightarrow>
          Some (s\<lparr>queue := removeAll i (queue s),
                  phase := (phase s)(i := Left (Some CancelledError))\<rparr>)
      | _ \<Rightarrow> None)"
| "step cfg s (Open i r) =
     (if phase s i \<noteq> Slot_held then None
      else case r of
        None \<Rightarrow> Some (s\<lparr>contexts := insert i (contexts s), phase := (phase s)(i := In_use)\<rparr>)
      | Some e \<Rightarrow> Some (release_slot i (Some e) s))"
| "step cfg s (Leave i k c) =
     (if phase s i \<noteq> In_use then None
      else case c of
        Closed \<Rightarrow> Some (release_slot i (exit_error k) (s\<lparr>contexts := contexts s - {i}\<rparr>))
      | Close_raised e \<Rightarrow>
          if is_Exception e then Some (release_slot i (exit_error k) s)
          else Some (s\<lparr>phase := (phase s)(i := Left (Some e))\<rparr>))"
| "step cfg s Tick = Some (s\<lparr>clock := clock s + 1\<rparr>)"
| "step cfg s Stop =
     (if started s then Some (s\<lparr>started := False, contexts := {}\<rparr>) else Some s)"
| "step cfg s Start =
     (if started s then Some s
      else Some (s\<lparr>started := True, semaphore := MAX_BROWSER_PAGES cfg\<rparr>))"

fun run :: "pool_config \<Rightarrow> pool_state \<Rightarrow> pool_event list \<Rightarrow> pool_state option" where
  "run cfg s [] = Some s"
| "run cfg s (ev # evs) = (case step cfg s ev of None \<Rightarrow> None | Some s' \<Rightarrow> run cfg s' evs)"

text \<open>
  Conditions on a run. The pool is started once (\<^verbatim>\<open>start()\<close>: ``Call once at app
  startup''): no \<open>Start\<close> follows a \<open>Stop\<close>. Every \<^verbatim>\<open>ctx.close()\<close> returns. No
  wait is cancelled.
\<close>

fun no_restart :: "pool_event list \<Rightarrow> bool" where
  "no_restart [] = True"
| "no_restart (Stop # evs) = (Start \<notin> set evs)"
| "no_restart (ev # evs) = no_restart evs"

fun close_returns :: "pool_event \<Rightarrow> bool" where
  "close_returns (Leave i k Closed) = True"
| "close_returns (Leave i k (Close_raised e)) = False"
| "close_returns ev = True"


text \<open>The invariants of the pool: the slots, the contexts, the queue, the counter.\<close>

definition slots_accounted :: "pool_config \<Rightarrow> pool_state \<Rightarrow> bool" where
  "slots_accounted cfg s =
     (finite (holders s) \<and>
      card (holders s) + semaphore s = MAX_BROWSER_PAGES cfg)"

definition holders_phases :: "pool_state \<Rightarrow> bool" where
  "holders_phases s =
     ((\<forall>i. phase s i = Slot_held \<or> phase s i = In_use \<longrightarrow> i \<in> holders s) \<and>
      (\<forall>i. i \<in> holders s \<longrightarrow>
           phase s i = Slot_held \<or> phase s i = In_use \<or> (\<exists>x. phase s i = Left x)))"

definition contexts_held :: "pool_state \<Rightarrow> bool" where
  "contexts_held s =
     (contexts s \<subseteq> holders s \<and> (\<forall>i. i \<in> contexts s \<longrightarrow> phase s i = In_use) \<and>
      (\<forall>i. i \<in> holders s \<longrightarrow> phase s i = Slot_held \<or> phase s i = In_use))"

definition queue_exact :: "pool_state \<Rightarrow> bool" where
  "queue_exact s =
     (distinct (queue s) \<and>
      (\<forall>i. i \<in> set (queue s) \<longleftrightarrow> (\<exists>deadline t. phase s i = Waiting_for_slot deadline t)))"

definition counter_exact :: "pool_state \<Rightarrow> bool" where
  "counter_exact s = (waiting s = int (length (queue s)))"

subsection \<open>Sample runs of a pool\<close>

definition small_pool :: pool_config where
  "small_pool = \<lparr>MAX_BROWSER_PAGES = 1, BROWSER_POOL_TIMEOUT = 300\<rparr>"


text \<open>
  Task 0 takes the only slot and opens its context; its block is cancelled, and the
  cancellation reaches the task again while it awaits \<^verbatim>\<open>ctx.close()\<close>. Task 1 then
  asks with a timeout of 2 ticks, and 2 ticks pass.
\<close>

definition leak_trace :: "pool_event list" where
  "leak_trace =
     [Call 0 None, Grant 0, Open 0 None, Leave 0 Cancelled_exit (Close_raised CancelledError),
      Call 1 (Some 2), Tick, Tick]"

text \<open>
  Task 0 holds the only slot when the pool is stopped and started again; it leaves its
  block, and tasks 1 and 2 each take a slot and open a context.
\<close>

definition restart_trace :: "pool_event list" where
  "restart_trace =
     [Call 0 None, Grant 0, Open 0 None, Stop, Start, Leave 0 Normal_exit Closed,
      Call 1 None, Grant 1, Open 1 None, Call 2 None, Grant 2, Open 2 None]"

section \<open>Properties of the merge\<close>

lemma add_dibbs_source_step:
  "add_dibbs_source (seen, acc) d =
     (if key_of (of_dibbs d) \<notin> seen \<and> companyName (of_dibbs d) \<noteq> []
      then (insert (key_of (of_dibbs d)) seen, acc @ [of_dibbs d]) else (seen, acc))"
  by (simp add: add_dibbs_source_def Let_def key_of_def of_dibbs_def)

lemma add_wbparts_mfr_step:
  "add_wbparts_mfr (seen, acc) m =
     (if key_of (of_wbparts m) \<notin> seen \<and> companyName (of_wbparts m) \<noteq> []
      then (insert (key_of (of_wbparts m)) seen, acc @ [of_wbparts m]) else (seen, acc))"
  by (simp add: add_wbparts_mfr_def Let_def key_of_def of_wbparts_def)

lemma foldl_dibbs:
  "foldl add_dibbs_source (seen, acc) ds =
     (seen \<union> key_of ` set (accumulate seen (map of_dibbs ds)),
      acc @ accumulate seen (map of_dibbs ds))"
proof (induction ds arbitrary: seen acc)
  case Nil
  show ?case by simp
next
  case (Cons d ds)
  show ?case by (simp add: add_dibbs_source_step Cons.IH)
qed

lemma foldl_wbparts:
  "foldl add_wbparts_mfr (seen, acc) ms =
     (seen \<union> key_of ` set (accumulate seen (map of_wbparts ms)),
      acc @ accumulate seen (map of_wbparts ms))"
proof (induction ms arbitrary: seen acc)
  case Nil
  show ?case by simp
next
  case (Cons m ms)
  show ?case by (simp add: add_wbparts_mfr_step Cons.IH)
qed

lemma accumulate_append:
  "accumulate seen (xs @ ys) =
     accumulate seen xs @ accumulate (seen \<union> key_of ` set (accumulate seen xs)) ys"
  by (induction xs arbitrary: seen) auto

lemma merge_accumulate:
  "get_unique_suppliers_list ds ms = accumulate {} (map of_dibbs ds @ map of_wbparts ms)"
  by (simp add: get_unique_suppliers_list_def foldl_dibbs foldl_wbparts accumulate_append)

lemma accumulate_filter:
  "accumulate seen xs =
     first_occurrences key_of (filter (\<lambda>s. key_of s \<notin> seen \<and> companyName s \<noteq> []) xs)"
proof (induction xs arbitrary: seen)
  case Nil
  show ?case by simp
next
  case (Cons x xs)
  have swap: "filter (\<lambda>s. key_of s \<noteq> key_of x \<and> key_of s \<notin> seen \<and> companyName s \<noteq> []) xs =
           filter (\<lambda>s. key_of s \<notin> seen \<and> companyName s \<noteq> [] \<and> key_of s \<noteq> key_of x) xs"
    by (rule filter_cong) auto
  show ?case by (simp add: Cons.IH swap)
qed

lemma first_occurrences_subset: "set (first_occurrences k xs) \<subseteq> set xs"
proof (induction k xs rule: first_occurrences.induct)
  case (1 k)
  show ?case by simp
next
  case (2 k x xs)
  then show ?case by auto
qed

lemma first_occurrences_distinct: "distinct (map k (first_occurrences k xs))"
proof (induction k xs rule: first_occurrences.induct)
  case (1 k)
  show ?case by simp
next
  case (2 k x xs)
  have "k x \<notin> k ` set (first_occurrences k (filter (\<lambda>y. k y \<noteq> k x) xs))"
    using first_occurrences_subset[of k "filter (\<lambda>y. k y \<noteq> k x) xs"] by auto
  with 2 show ?case by simp
qed

lemma first_occurrences_cong:
  "(\<And>x y. x \<in> set xs \<Longrightarrow> y \<in> set xs \<Longrightarrow> (k x = k y) = (k' x = k' y)) \<Longrightarrow>
   first_occurrences k xs = first_occurrences k' xs"
proof (induction k xs rule: first_occurrences.induct)
  case (1 k)
  show ?case by simp
next
  case (2 k x xs)
  have f: "filter (\<lambda>y. k y \<noteq> k x) xs = filter (\<lambda>y. k' y \<noteq> k' x) xs"
    using 2(2) by (auto intro!: filter_cong)
  have "first_occurrences k (filter (\<lambda>y. k y \<noteq> k x) xs) =
        first_occurrences k' (filter (\<lambda>y. k y \<noteq> k x) xs)"
    by (rule 2(1)) (use 2(2) in auto)
  then show ?case by (simp add: f)
qed

text \<open>
  Two keys built from CAGE codes without the separator are equal only when both
  components are: the last separator of the key is the one the f-string wrote.
\<close>

lemma supplier_key_inj:
  assumes "CHR ''|'' \<notin> set c1" "CHR ''|'' \<notin> set c2"
    and "supplier_key n1 c1 = supplier_key n2 c2"
  shows "n1 = n2 \<and> c1 = c2"
proof -
  from assms(3) have e: "n1 @ CHR ''|'' # c1 = n2 @ CHR ''|'' # c2"
    by (simp add: supplier_key_def)
  then obtain us where
    "(n1 = n2 @ us \<and> us @ CHR ''|'' # c1 = CHR ''|'' # c2) \<or>
     (n1 @ us = n2 \<and> CHR ''|'' # c1 = us @ CHR ''|'' # c2)"
    by (auto simp: append_eq_append_conv2)
  then show ?thesis
  proof
    assume h: "n1 = n2 @ us \<and> us @ CHR ''|'' # c1 = CHR ''|'' # c2"
    show ?thesis
    proof (cases us)
      case Nil
      with h show ?thesis by simp
    next
      case (Cons u us')
      with h have "c2 = us' @ CHR ''|'' # c1" by simp
      with assms(2) show ?thesis by simp
    qed
  next
    assume h: "n1 @ us = n2 \<and> CHR ''|'' # c1 = us @ CHR ''|'' # c2"
    show ?thesis
    proof (cases us)
      case Nil
      with h show ?thesis by simp
    next
      case (Cons u us')
      with h have "c1 = us' @ CHR ''|'' # c2" by simp
      with assms(1) show ?thesis by simp
    qed
  qed
qed

lemma key_pair_agree:
  assumes "CHR ''|'' \<notin> set (cageCode x)" "CHR ''|'' \<notin> set (cageCode y)"
  shows "(key_of x = key_of y) = (identity_pair x = identity_pair y)"
  using supplier_key_inj[OF assms] by (auto simp: key_of_def identity_pair_def)

lemma distinct_map_via:
  "distinct (map f xs) \<Longrightarrow> (\<And>x. f x = h (g x)) \<Longrightarrow> distinct (map g xs)"
proof (induction xs)
  case Nil
  show ?case by simp
next
  case (Cons x xs)
  have "g x \<notin> g ` set xs"
  proof
    assume "g x \<in> g ` set xs"
    then obtain y where y: "y \<in> set xs" "g x = g y" by auto
    then have "f x = f y" by (simp add: Cons.prems(2))
    with y(1) Cons.prems(1) show False by (auto simp: image_iff)
  qed
  with Cons show ?case by simp
qed

lemma key_of_via_pair: "key_of s = (\<lambda>p. supplier_key (fst p) (snd p)) (identity_pair s)"
  by (simp add: key_of_def identity_pair_def)

lemma merge_first_occurrences:
  "get_unique_suppliers_list ds ms =
     first_occurrences key_of
       (filter (\<lambda>s. companyName s \<noteq> []) (map of_dibbs ds @ map of_wbparts ms))"
  by (simp add: merge_accumulate accumulate_filter)

lemma merge_distinct_keys: "distinct (map key_of (get_unique_suppliers_list ds ms))"
  by (simp only: merge_first_occurrences first_occurrences_distinct)

lemma merge_distinct_pairs: "distinct (map identity_pair (get_unique_suppliers_list ds ms))"
  by (rule distinct_map_via[where f = key_of and h = "\<lambda>p. supplier_key (fst p) (snd p)"])
    (simp_all add: merge_distinct_keys key_of_via_pair)

lemma merge_names_nonempty:
  "s \<in> set (get_unique_suppliers_list ds ms) \<Longrightarrow> companyName s \<noteq> []"
  using first_occurrences_subset[of key_of
      "filter (\<lambda>s. companyName s \<noteq> []) (map of_dibbs ds @ map of_wbparts ms)"]
  by (auto simp: merge_first_occurrences)

section \<open>Stage B: the claims about the merge\<close>

text \<open>
  Claim C4, as the code has it. The merged list is the list of all rows of both sources
  that have a company name, in insertion order, cut down to the first occurrence of every
  key string \<^verbatim>\<open>name|cage\<close>. It holds at most one entity for each pair (name,
  CAGE code). When no CAGE code contains the separator, equal key strings are equal pairs
  and the list is the first-occurrence deduplication by the pair. Stage B merges the rows
  of the sources that returned data; a source without data contributes no row.
\<close>

theorem C4_merge_first_occurrence:
  "get_unique_suppliers_list ds ms =
     first_occurrences key_of (filter (\<lambda>s. companyName s \<noteq> []) (map of_dibbs ds @ map of_wbparts ms))
   \<and> distinct (map identity_pair (get_unique_suppliers_list ds ms))
   \<and> (no_pipe_in_cage (map of_dibbs ds @ map of_wbparts ms) \<longrightarrow>
        get_unique_suppliers_list ds ms =
          first_occurrences identity_pair
            (filter (\<lambda>s. companyName s \<noteq> []) (map of_dibbs ds @ map of_wbparts ms)))
   \<and> stage_b dr wr 0 = get_unique_suppliers_list (dibbs_sources_of dr) (wbparts_mfrs_of wr)
   \<and> (data dr = None \<longrightarrow> dibbs_sources_of dr = [])
   \<and> (wb_data wr = None \<longrightarrow> wbparts_mfrs_of wr = [])"
proof (intro conjI impI)
  show "stage_b dr wr 0 = get_unique_suppliers_list (dibbs_sources_of dr) (wbparts_mfrs_of wr)"
    by (simp add: stage_b_def cap_suppliers_def)
  show "dibbs_sources_of dr = []" if "data dr = None"
    using that by (simp add: dibbs_sources_of_def)
  show "wbparts_mfrs_of wr = []" if "wb_data wr = None"
    using that by (simp add: wbparts_mfrs_of_def)
  show "get_unique_suppliers_list ds ms =
     first_occurrences key_of (filter (\<lambda>s. companyName s \<noteq> []) (map of_dibbs ds @ map of_wbparts ms))"
    by (rule merge_first_occurrences)
  show "distinct (map identity_pair (get_unique_suppliers_list ds ms))"
    by (rule merge_distinct_pairs)
next
  let ?all = "map of_dibbs ds @ map of_wbparts ms"
  let ?xs = "filter (\<lambda>s. companyName s \<noteq> []) ?all"
  assume np: "no_pipe_in_cage ?all"
  have "first_occurrences key_of ?xs = first_occurrences identity_pair ?xs"
  proof (rule first_occurrences_cong)
    fix x y assume "x \<in> set ?xs" "y \<in> set ?xs"
    then have "CHR ''|'' \<notin> set (cageCode x)" "CHR ''|'' \<notin> set (cageCode y)"
      using np unfolding no_pipe_in_cage_def list_all_iff by auto
    then show "(key_of x = key_of y) = (identity_pair x = identity_pair y)"
      by (rule key_pair_agree)
  qed
  then show "get_unique_suppliers_list ds ms = first_occurrences identity_pair ?xs"
    by (simp only: merge_first_occurrences)
qed

text \<open>
  Witness for C4: two sources that share the entity (Acme, 123); no CAGE code holds the
  separator, and the merge keeps Acme from the first source, then Beta, then Gamma.
\<close>

theorem C4_merge_first_occurrence_witness:
  "no_pipe_in_cage (map of_dibbs [acme1, beta1] @ map of_wbparts [acme2, gamma2]) \<and>
   get_unique_suppliers_list [acme1, beta1] [acme2, gamma2] =
     [of_dibbs acme1, of_dibbs beta1, of_wbparts gamma2]"
proof -
  have np: "no_pipe_in_cage (map of_dibbs [acme1, beta1] @ map of_wbparts [acme2, gamma2])"
    by (simp add: no_pipe_in_cage_def of_dibbs_def of_wbparts_def acme1_def beta1_def acme2_def gamma2_def)
  from C4_merge_first_occurrence[of "[acme1, beta1]" "[acme2, gamma2]"] np
  have "get_unique_suppliers_list [acme1, beta1] [acme2, gamma2] =
          first_occurrences identity_pair
            (filter (\<lambda>s. companyName s \<noteq> []) (map of_dibbs [acme1, beta1] @ map of_wbparts [acme2, gamma2]))"
    by blast
  also have "\<dots> = [of_dibbs acme1, of_dibbs beta1, of_wbparts gamma2]"
    by (simp add: identity_pair_def of_dibbs_def of_wbparts_def acme1_def beta1_def acme2_def gamma2_def)
  finally show ?thesis using np by simp
qed

text \<open>
  Counterexample to C4 as stated: a row that has a CAGE code and a part number and no
  company name belongs to the union of the entity lists, and is not in the merged list.
\<close>

theorem C4_nameless_row_counterexample:
  "get_unique_suppliers_list [nameless] [] \<noteq> merged_union_spec [nameless] []"
  by (simp add: get_unique_suppliers_list_def add_dibbs_source_def merged_union_spec_def nameless_def Let_def)

text \<open>
  Claim C9, as the code has it. One source returns (Acme, 123) and one entity of its own,
  the other returns (Acme, 123) and another entity of its own; the two other entities have
  a company name and keys that differ from each other and from Acme's. The merge yields
  three entities in the order of their first occurrence, in whichever order each source
  lists its two rows.
\<close>

theorem C9_three_entities:
  assumes a1: "company_name a1 = ''Acme''" "cage_code a1 = ''123''"
      and a2: "mfr_company_name a2 = ''Acme''" "mfr_cage_code a2 = ''123''"
      and ne: "company_name u1 \<noteq> []" "mfr_company_name u2 \<noteq> []"
      and uniq: "key_of (of_dibbs u1) \<noteq> ''Acme|123''" "key_of (of_wbparts u2) \<noteq> ''Acme|123''"
                "key_of (of_dibbs u1) \<noteq> key_of (of_wbparts u2)"
  shows "get_unique_suppliers_list [a1, u1] [a2, u2] = [of_dibbs a1, of_dibbs u1, of_wbparts u2]
       \<and> get_unique_suppliers_list [u1, a1] [u2, a2] = [of_dibbs u1, of_dibbs a1, of_wbparts u2]
       \<and> get_unique_suppliers_list [a1, u1] [u2, a2] = [of_dibbs a1, of_dibbs u1, of_wbparts u2]
       \<and> get_unique_suppliers_list [u1, a1] [a2, u2] = [of_dibbs u1, of_dibbs a1, of_wbparts u2]"
proof -
  have k1: "key_of (of_dibbs a1) = ''Acme|123''" using a1 by (simp add: key_of_def of_dibbs_def supplier_key_def)
  have k2: "key_of (of_wbparts a2) = ''Acme|123''" using a2 by (simp add: key_of_def of_wbparts_def supplier_key_def)
  have n1: "companyName (of_dibbs a1) \<noteq> []" using a1 by (simp add: of_dibbs_def)
  have n2: "companyName (of_dibbs u1) \<noteq> []" using ne by (simp add: of_dibbs_def)
  have n3: "companyName (of_wbparts u2) \<noteq> []" using ne by (simp add: of_wbparts_def)
  have n4: "companyName (of_wbparts a2) \<noteq> []" using a2 by (simp add: of_wbparts_def)
  note facts = k1 k2 n1 n2 n3 n4 uniq uniq[symmetric]
  show ?thesis
    by (simp add: merge_accumulate facts)
qed

text \<open>Witness for C9: Acme and Beta from the first source, Acme and Gamma from the second.\<close>

theorem C9_three_entities_witness:
  "get_unique_suppliers_list [acme1, beta1] [acme2, gamma2] = [of_dibbs acme1, of_dibbs beta1, of_wbparts gamma2]
   \<and> length (get_unique_suppliers_list [acme1, beta1] [acme2, gamma2]) = 3"
proof -
  have "get_unique_suppliers_list [acme1, beta1] [acme2, gamma2] = [of_dibbs acme1, of_dibbs beta1, of_wbparts gamma2]"
    using C9_three_entities[of acme1 acme2 beta1 gamma2]
    by (simp add: key_of_def supplier_key_def of_dibbs_def of_wbparts_def acme1_def beta1_def acme2_def gamma2_def)
  then show ?thesis by simp
qed

text \<open>
  Counterexample to C9 as stated: on these two sources the merge does not have two
  entities.
\<close>

theorem C9_two_entities_counterexample:
  "length (get_unique_suppliers_list [acme1, beta1] [acme2, gamma2]) \<noteq> 2"
  by (simp add: get_unique_suppliers_list_def add_dibbs_source_step add_wbparts_mfr_step
      key_of_def supplier_key_def of_dibbs_def of_wbparts_def acme1_def beta1_def acme2_def gamma2_def)

section \<open>Stage C: gathering the tasks and deriving the status\<close>

lemma returned_map_Returns: "returned (map Returns xs) = Some xs"
  by (induction xs) auto

lemma returned_Some: "returned os = Some xs \<Longrightarrow> os = map Returns xs"
proof (induction os arbitrary: xs)
  case Nil
  then show ?case by auto
next
  case (Cons a os)
  then show ?case by (cases a) (auto split: option.splits)
qed

lemma returned_iff: "returned os = Some xs \<longleftrightarrow> os = map Returns xs"
  using returned_Some returned_map_Returns by blast

lemma first_raise_map_Returns: "first_raise (map Returns xs) = None"
  by (induction xs) auto

lemma gather_Returns_iff: "gather os = Returns xs \<longleftrightarrow> os = map Returns xs"
proof
  assume "gather os = Returns xs"
  then have "returned os = Some xs"
    by (auto simp: gather_def split: option.splits)
  then show "os = map Returns xs" by (simp add: returned_iff)
next
  assume "os = map Returns xs"
  then show "gather os = Returns xs"
    using returned_iff[of os xs] by (simp add: gather_def first_raise_map_Returns)
qed

lemma run_tasks_Returns:
  "run_tasks env d sups = Returns results \<longleftrightarrow>
     length results = length sups \<and>
     (\<forall>i < length sups. discover_one env d i (sups ! i) = Returns (results ! i))"
proof -
  have "run_tasks env d sups = Returns results \<longleftrightarrow>
        map (\<lambda>(idx, s). discover_one env d idx s) (enumerate 0 sups) = map Returns results"
    by (simp add: run_tasks_def gather_Returns_iff)
  also have "\<dots> \<longleftrightarrow> length results = length sups \<and>
     (\<forall>i < length sups. discover_one env d i (sups ! i) = Returns (results ! i))"
    by (auto simp: list_eq_iff_nth_eq nth_enumerate_eq)
  finally show ?thesis .
qed

lemma count_partition:
  "code_successes rs + code_failures rs + timed_out_count rs = length rs" 
  if "\<And>r. r \<in> set rs \<Longrightarrow> skipped_at_deadline r \<Longrightarrow> \<not> counts_as_success (entity r)"
  using that
proof (induction rs)
  case Nil
  show ?case by (simp add: code_successes_def code_failures_def timed_out_count_def)
next
  case (Cons r rs)
  then have "code_successes rs + code_failures rs + timed_out_count rs = length rs" by simp
  moreover have "skipped_at_deadline r \<Longrightarrow> \<not> counts_as_success (entity r)" using Cons.prems by simp
  ultimately show ?case
    by (auto simp: code_successes_def code_failures_def timed_out_count_def)
qed

lemma discover_one_skipped:
  "discover_one env d i s = Returns r \<Longrightarrow> skipped_at_deadline r \<Longrightarrow>
     entity r = without_contact s \<and> service_calls r = [] \<and> deadline_reached d (t_check env i)"
  by (auto simp: discover_one_def split: if_splits sum.splits)

lemma status_of_tasks_table:
  assumes len: "length rs = length sups" and ne: "sups \<noteq> []"
    and sk: "\<And>r. r \<in> set rs \<Longrightarrow> skipped_at_deadline r \<Longrightarrow> \<not> counts_as_success (entity r)"
  shows "status_of_tasks sups rs = spec_table (code_successes rs) (code_failures rs) (timed_out_count rs)"
proof -
  define sc fc tc where "sc = code_successes rs" and "fc = code_failures rs"
    and "tc = timed_out_count rs"
  have part: "sc + fc + tc = length sups"
    unfolding sc_def fc_def tc_def using count_partition[of rs] sk len by simp
  have t: "list_ex skipped_at_deadline rs \<longleftrightarrow> tc > 0"
    by (auto simp: tc_def timed_out_count_def list_ex_iff filter_empty_conv)
  have s: "length (filter counts_as_success (map entity rs)) = sc"
    by (simp add: sc_def code_successes_def filter_map comp_def)
  have pos: "length sups > 0" using ne by simp
  have "status_of_tasks sups rs = derive_firecrawl_status (tc > 0) sc (length sups)"
    by (simp only: status_of_tasks_def t s)
  also have "\<dots> = spec_table sc fc tc"
    using part pos by (auto simp: derive_firecrawl_status_def spec_table_def)
  finally show ?thesis by (simp add: sc_def fc_def tc_def)
qed

lemma scrape_nsn_Returns:
  "scrape_nsn env n cb m t = Returns r \<Longrightarrow>
     \<exists>dr wr st swcs. stage_a env n = Returns (dr, wr) \<and>
        stage_c env (deadline_of env t) (stage_b dr wr m) = Returns (st, swcs) \<and>
        r = build_result env n dr wr st swcs"
  by (auto simp: scrape_nsn_def Let_def split: option.splits outcome.splits prod.splits)

lemma stage_c_Returns:
  "stage_c env d sups = Returns (st, swcs) \<Longrightarrow>
     (if sups = [] \<or> \<not> firecrawl_configured env
      then st = Skipped \<and> swcs = map without_contact sups
      else \<exists>results. run_tasks env d sups = Returns results \<and>
             st = status_of_tasks sups results \<and> swcs = map entity results)"
  by (auto simp: stage_c_def split: if_splits outcome.splits)

lemma skipped_not_success:
  "discover_one env d i s = Returns r \<Longrightarrow> skipped_at_deadline r \<Longrightarrow>
     \<not> counts_as_success (entity r)"
  by (auto dest!: discover_one_skipped simp: counts_as_success_def without_contact_def)

lemma run_tasks_skipped_not_success:
  assumes "run_tasks env d sups = Returns results" "r \<in> set results" "skipped_at_deadline r"
  shows "\<not> counts_as_success (entity r)"
proof -
  from assms(2) obtain i where i: "i < length results" "results ! i = r"
    by (auto simp: in_set_conv_nth)
  with assms(1) have "discover_one env d i (sups ! i) = Returns r"
    by (auto simp: run_tasks_Returns)
  then show ?thesis using assms(3) by (rule skipped_not_success)
qed

lemma base_stage_b: "stage_b dibbs_ok wbparts_404 0 = [of_dibbs acme1]"
  by (simp add: dibbs_ok_def wbparts_404_def stage_b_def cap_suppliers_def dibbs_sources_of_def wbparts_mfrs_of_def sample_rfq_def
      get_unique_suppliers_list_def add_dibbs_source_step key_of_def supplier_key_def of_dibbs_def acme1_def)

lemma base_run:
  "scrape_nsn base_env ''4520012619675'' noop_progress 0 0 = Returns base_result"
  by (simp add: scrape_nsn_def noop_progress_def stage_a_def gather2_def base_env_def
      base_stage_b stage_c_def run_tasks_def gather_def discover_one_def deadline_of_def
      deadline_reached_def status_of_tasks_def derive_firecrawl_status_def
      counts_as_success_def with_contact_def high_contact_def base_result_def
      of_dibbs_def acme1_def)

text \<open>
  Claim C1, as the code has it. In every run that returns, the status of Stage C is
  \<open>Skipped\<close> when no entity was merged or the enrichment is not configured; otherwise it
  is the row of the table for the outcomes of the tasks, where a success is an attempt that
  yields a contact of confidence high or medium, a failure any other attempt, and a
  timed-out entity one skipped at the deadline check.
\<close>

theorem C1_status_table:
  assumes "scrape_nsn env n cb m t = Returns r"
  shows "\<exists>dr wr. stage_a env n = Returns (dr, wr) \<and>
     (if stage_b dr wr m = [] \<or> \<not> firecrawl_configured env
      then firecrawl_status (workflow r) = Skipped
      else \<exists>results. run_tasks env (deadline_of env t) (stage_b dr wr m) = Returns results \<and>
             length results = length (stage_b dr wr m) \<and>
             firecrawl_status (workflow r) =
               spec_table (code_successes results) (code_failures results) (timed_out_count results))"
proof -
  from scrape_nsn_Returns[OF assms] obtain dr wr st swcs where
    a: "stage_a env n = Returns (dr, wr)" and
    c: "stage_c env (deadline_of env t) (stage_b dr wr m) = Returns (st, swcs)" and
    r: "r = build_result env n dr wr st swcs" by blast
  have st: "firecrawl_status (workflow r) = st" by (simp add: r build_result_def)
  show ?thesis
  proof (cases "stage_b dr wr m = [] \<or> \<not> firecrawl_configured env")
    case True
    with stage_c_Returns[OF c] a st show ?thesis by auto
  next
    case False
    with stage_c_Returns[OF c] obtain results where
      rt: "run_tasks env (deadline_of env t) (stage_b dr wr m) = Returns results" and
      s: "st = status_of_tasks (stage_b dr wr m) results" by auto
    have len: "length results = length (stage_b dr wr m)" using rt by (simp add: run_tasks_Returns)
    have "status_of_tasks (stage_b dr wr m) results =
            spec_table (code_successes results) (code_failures results) (timed_out_count results)"
      using len False run_tasks_skipped_not_success[OF rt]
      by (intro status_of_tasks_table) auto
    with a rt len s st False show ?thesis by auto
  qed
qed

text \<open>
  Witness for C1: the sample run returns; its only supplier is enriched with a contact of
  confidence high and the status is \<open>Success\<close>.
\<close>

theorem C1_status_table_witness:
  "scrape_nsn base_env ''4520012619675'' noop_progress 0 0 = Returns base_result \<and>
   firecrawl_status (workflow base_result) = Success \<and>
   (\<exists>dr wr. stage_a base_env ''4520012619675'' = Returns (dr, wr) \<and>
     (if stage_b dr wr 0 = [] \<or> \<not> firecrawl_configured base_env
      then firecrawl_status (workflow base_result) = Skipped
      else \<exists>results. run_tasks base_env (deadline_of base_env 0) (stage_b dr wr 0) = Returns results \<and>
             length results = length (stage_b dr wr 0) \<and>
             firecrawl_status (workflow base_result) =
               spec_table (code_successes results) (code_failures results)
                 (timed_out_count results)))"
proof -
  have "firecrawl_status (workflow base_result) = Success"
    by (simp add: base_result_def build_result_def)
  then show ?thesis
    using C1_status_table[OF base_run] base_run by simp
qed

text \<open>
  Counterexample to C1 as stated: the only attempt yields a contact, of confidence low.
  With a success read as an attempt that yields a contact the table gives \<open>Success\<close>;
  the run reports \<open>Error\<close>.
\<close>

theorem C1_low_confidence_counterexample:
  "status_of_run (scrape_nsn low_env ''4520012619675'' noop_progress 0 0) = Some Error \<and>
   run_tasks low_env (deadline_of low_env 0) [of_dibbs acme1] = Returns low_tasks \<and>
   spec_table (spec_successes low_tasks) (spec_failures low_tasks) (timed_out_count low_tasks) = Success"
proof (intro conjI)
  show "run_tasks low_env (deadline_of low_env 0) [of_dibbs acme1] = Returns low_tasks"
    by (simp add: run_tasks_def gather_def enumerate_simps discover_one_def deadline_of_def deadline_reached_def
        low_env_def base_env_def low_tasks_def of_dibbs_def acme1_def)
  show "spec_table (spec_successes low_tasks) (spec_failures low_tasks) (timed_out_count low_tasks) = Success"
    by (simp add: spec_table_def spec_successes_def spec_failures_def timed_out_count_def low_tasks_def with_contact_def)
  show "status_of_run (scrape_nsn low_env ''4520012619675'' noop_progress 0 0) = Some Error"
    by (simp add: status_of_run_def scrape_nsn_def noop_progress_def stage_a_def gather2_def low_env_def base_env_def
        base_stage_b stage_c_def run_tasks_def gather_def discover_one_def deadline_of_def deadline_reached_def
        status_of_tasks_def derive_firecrawl_status_def counts_as_success_def with_contact_def low_contact_def
        build_result_def)
qed

section \<open>The workflow: names, failures and the deadline\<close>

lemma discover_one_name:
  "discover_one env d i s = Returns r \<Longrightarrow>
     swc_company_name (entity r) = companyName s \<and> swc_cage_code (entity r) = cageCode s \<and>
     swc_part_number (entity r) = partNumber s"
  by (auto simp: discover_one_def without_contact_def with_contact_def split: if_splits sum.splits)

lemma cap_suppliers_subset: "set (cap_suppliers m xs) \<subseteq> set xs"
  by (auto simp: cap_suppliers_def dest: in_set_takeD)

lemma stage_b_names_nonempty: "s \<in> set (stage_b dr wr m) \<Longrightarrow> companyName s \<noteq> []"
  using cap_suppliers_subset merge_names_nonempty unfolding stage_b_def by blast

lemma stage_c_names:
  assumes "stage_c env d sups = Returns (st, swcs)"
  shows "map swc_company_name swcs = map companyName sups"
proof (cases "sups = [] \<or> \<not> firecrawl_configured env")
  case True
  with stage_c_Returns[OF assms] show ?thesis by (auto simp: without_contact_def)
next
  case False
  with stage_c_Returns[OF assms] obtain results where
    rt: "run_tasks env d sups = Returns results" and s: "swcs = map entity results" by auto
  from rt have len: "length results = length sups"
    and each: "\<And>i. i < length sups \<Longrightarrow> discover_one env d i (sups ! i) = Returns (results ! i)"
    by (auto simp: run_tasks_Returns)
  show ?thesis
    unfolding s using len discover_one_name[OF each]
    by (auto simp: list_eq_iff_nth_eq)
qed

text \<open>
  Claim C10. Every supplier of the merged list has a company name, and so has every
  supplier of the result a workflow run returns. A row without a company name leaves the
  state of the merge loop as it is: nothing is appended and its key is not added to
  \<^verbatim>\<open>seen\<close>, whatever its CAGE code and part number.
\<close>

theorem C10_names_nonempty:
  "(\<forall>s \<in> set (get_unique_suppliers_list ds ms). companyName s \<noteq> []) \<and>
   (scrape_nsn env n cb m t = Returns r \<longrightarrow> (\<forall>w \<in> set (suppliers r). swc_company_name w \<noteq> [])) \<and>
   (company_name d = [] \<longrightarrow> add_dibbs_source st d = st) \<and>
   (mfr_company_name mf = [] \<longrightarrow> add_wbparts_mfr st mf = st)"
proof (intro conjI impI ballI)
  fix s assume "s \<in> set (get_unique_suppliers_list ds ms)"
  then show "companyName s \<noteq> []" by (rule merge_names_nonempty)
next
  fix w assume run: "scrape_nsn env n cb m t = Returns r" and w: "w \<in> set (suppliers r)"
  from scrape_nsn_Returns[OF run] obtain dr wr st' swcs where
    c: "stage_c env (deadline_of env t) (stage_b dr wr m) = Returns (st', swcs)" and
    r: "r = build_result env n dr wr st' swcs" by blast
  have "suppliers r = swcs" by (simp add: r build_result_def)
  with w have "swc_company_name w \<in> set (map swc_company_name swcs)" by simp
  then have "swc_company_name w \<in> companyName ` set (stage_b dr wr m)"
    by (simp add: stage_c_names[OF c])
  then obtain x where "x \<in> set (stage_b dr wr m)" "swc_company_name w = companyName x" by auto
  then show "swc_company_name w \<noteq> []" using stage_b_names_nonempty[of x dr wr m] by simp
next
  assume "company_name d = []"
  then show "add_dibbs_source st d = st" by (simp add: add_dibbs_source_def Let_def)
next
  assume "mfr_company_name mf = []"
  then show "add_wbparts_mfr st mf = st" by (simp add: add_wbparts_mfr_def Let_def)
qed

text \<open>
  Witness for C10: a row with a CAGE code and no company name before Acme's row. The
  merged list is Acme alone, the loop state after the nameless row is the initial one, and
  the sample run returns a supplier list with names only.
\<close>

theorem C10_names_nonempty_witness:
  "get_unique_suppliers_list [nameless, acme1] [] = [of_dibbs acme1] \<and>
   companyName (of_dibbs acme1) \<noteq> [] \<and>
   scrape_nsn base_env ''4520012619675'' noop_progress 0 0 = Returns base_result \<and>
   list_all (\<lambda>w. swc_company_name w \<noteq> []) (suppliers base_result) \<and>
   company_name nameless = [] \<and>
   add_dibbs_source ({}, []) nameless = ({}, [])"
proof -
  have m: "get_unique_suppliers_list [nameless, acme1] [] = [of_dibbs acme1]"
    by (simp add: get_unique_suppliers_list_def add_dibbs_source_step key_of_def supplier_key_def
        of_dibbs_def nameless_def acme1_def)
  have n: "company_name nameless = []" by (simp add: nameless_def)
  note inst = C10_names_nonempty[of "[nameless, acme1]" "[]" base_env "''4520012619675''" noop_progress 0 0
      base_result nameless "({}, [])"]
  from inst m have 1: "companyName (of_dibbs acme1) \<noteq> []" by simp
  from inst base_run have 2: "list_all (\<lambda>w. swc_company_name w \<noteq> []) (suppliers base_result)"
    by (simp add: list_all_iff)
  from inst n have 3: "add_dibbs_source ({}, []) nameless = ({}, [])" by blast
  from m 1 2 3 n base_run show ?thesis by simp
qed







lemma deadline_skip:
  "deadline_reached d (t_check env i) \<Longrightarrow>
     discover_one env d i s =
       Returns \<lparr>skipped_at_deadline = True, service_calls = [], entity = without_contact s\<rparr>"
  by (simp add: discover_one_def)

lemma deadline_margin:
  "0 < t \<Longrightarrow> t_deadline_set env + real_of_int t - t_check env i < 5 \<Longrightarrow>
     deadline_reached (deadline_of env t) (t_check env i)"
  by (simp add: deadline_reached_def deadline_of_def)

text \<open>
  Claim C3, evaluated where it fails. The deadline is taken from the clock after the two
  fetches have finished, and a task that passes its check runs to its end. Here the
  fetches took 30 seconds. Given 10 seconds, the only task checks the deadline 20 seconds
  after the caller's budget has run out, finds 10 seconds remaining, and calls the
  enrichment service; the run reports \<open>Success\<close>, not \<open>Partial_timeout\<close>. Given 5
  seconds, the task finds 5 seconds remaining and is skipped, the run reports
  \<open>Partial_timeout\<close>, 25 seconds after the budget has run out. Either run ends 31
  seconds after it started.
\<close>

theorem C3_deadline_set_after_fetch:
  "t_start late_env + 10 < t_check late_env 0 \<and>
   deadline_of late_env 10 = Some 40 \<and>
   run_tasks late_env (deadline_of late_env 10) [of_dibbs acme1] = Returns late_tasks \<and>
   status_of_run (scrape_nsn late_env ''4520012619675'' noop_progress 0 10) = Some Success \<and>
   t_finish late_env - t_start late_env > 10 \<and>
   deadline_reached (deadline_of late_env 5) (t_check late_env 0) \<and>
   status_of_run (scrape_nsn late_env ''4520012619675'' noop_progress 0 5) =
     Some Partial_timeout"
proof (intro conjI)
  show "deadline_reached (deadline_of late_env 5) (t_check late_env 0)"
    by (simp add: deadline_reached_def deadline_of_def late_env_def base_env_def)
  show "status_of_run (scrape_nsn late_env ''4520012619675'' noop_progress 0 5) =
     Some Partial_timeout"
    by (simp add: status_of_run_def scrape_nsn_def noop_progress_def stage_a_def gather2_def
        late_env_def base_env_def base_stage_b stage_c_def run_tasks_def gather_def
        discover_one_def deadline_of_def deadline_reached_def status_of_tasks_def
        derive_firecrawl_status_def build_result_def)
  show "t_start late_env + 10 < t_check late_env 0"
    by (simp add: late_env_def base_env_def)
  show "deadline_of late_env 10 = Some 40"
    by (simp add: deadline_of_def late_env_def base_env_def)
  show "run_tasks late_env (deadline_of late_env 10) [of_dibbs acme1] = Returns late_tasks"
    by (simp add: run_tasks_def gather_def discover_one_def deadline_of_def
        deadline_reached_def late_env_def base_env_def late_tasks_def of_dibbs_def acme1_def)
  show "status_of_run (scrape_nsn late_env ''4520012619675'' noop_progress 0 10) = Some Success"
    by (simp add: status_of_run_def scrape_nsn_def noop_progress_def stage_a_def gather2_def
        late_env_def base_env_def base_stage_b stage_c_def run_tasks_def gather_def
        discover_one_def deadline_of_def deadline_reached_def status_of_tasks_def
        derive_firecrawl_status_def counts_as_success_def with_contact_def high_contact_def
        build_result_def)
  show "t_finish late_env - t_start late_env > 10"
    by (simp add: late_env_def base_env_def)
qed

section \<open>The paced-sequential batch\<close>

lemma process_item_quiet:
  assumes "outer_callbacks_return benv"
  shows "process_item benv N idx n (br, tr) =
     (case item_outcome benv N idx n of
        Returns t \<Rightarrow>
          Returns (br\<lparr>batch_results := batch_results br @ [entry t],
                     successful := successful br + successful_added t,
                     failed := failed br + failed_added t,
                     processed := processed br + 1\<rparr>,
                   tr @ events t @ (if validate_nsn n \<and> idx < N then [Slept] else []))
      | Raises e \<Rightarrow> Raises e
      | Hangs \<Rightarrow> Hangs)"
  using assms
  by (auto simp: process_item_def item_outcome_def outer_callbacks_return_def Let_def
      split: outcome.splits)

lemma batch_loop_Returns:
  assumes cb: "outer_callbacks_return benv"
  shows "batch_loop benv N idx ns (br, tr) = Returns (br', tr') \<Longrightarrow>
     \<exists>ts. length ts = length ns \<and>
       (\<forall>j < length ns. item_outcome benv N (idx + j) (ns ! j) = Returns (ts ! j)) \<and>
       batch_results br' = batch_results br @ map entry ts \<and>
       successful br' = successful br + sum_list (map successful_added ts) \<and>
       failed br' = failed br + sum_list (map failed_added ts) \<and>
       processed br' = processed br + length ns \<and>
       total_nsns br' = total_nsns br \<and>
       filter (\<lambda>ev. \<exists>x. ev = Workflow_invoked x) tr' =
         filter (\<lambda>ev. \<exists>x. ev = Workflow_invoked x) tr @
         filter (\<lambda>ev. \<exists>x. ev = Workflow_invoked x) (concat (map events ts))"
proof (induction ns arbitrary: idx br tr)
  case Nil
  then show ?case by simp
next
  case (Cons n ns)
  from Cons.prems obtain t where
    t: "item_outcome benv N idx n = Returns t" and
    rest: "batch_loop benv N (Suc idx) ns
            (br\<lparr>batch_results := batch_results br @ [entry t],
                   successful := successful br + successful_added t,
                   failed := failed br + failed_added t,
                   processed := processed br + 1\<rparr>,
             tr @ events t @ (if validate_nsn n \<and> idx < N then [Slept] else [])) = Returns (br', tr')"
    by (auto simp: process_item_quiet[OF cb] split: outcome.splits)
  from Cons.IH[OF rest] obtain ts where
    ts: "length ts = length ns"
      "\<forall>j < length ns. item_outcome benv N (Suc idx + j) (ns ! j) = Returns (ts ! j)"
      "batch_results br' = (batch_results br @ [entry t]) @ map entry ts"
      "successful br' = successful br + successful_added t + sum_list (map successful_added ts)"
      "failed br' = failed br + failed_added t + sum_list (map failed_added ts)"
      "processed br' = processed br + 1 + length ns"
      "total_nsns br' = total_nsns br"
      "filter (\<lambda>ev. \<exists>x. ev = Workflow_invoked x) tr' =
         filter (\<lambda>ev. \<exists>x. ev = Workflow_invoked x)
           (tr @ events t @ (if validate_nsn n \<and> idx < N then [Slept] else [])) @
         filter (\<lambda>ev. \<exists>x. ev = Workflow_invoked x) (concat (map events ts))"
    by auto
  have each: "\<forall>j < length (n # ns). item_outcome benv N (idx + j) ((n # ns) ! j) = Returns ((t # ts) ! j)"
  proof (intro allI impI)
    fix j assume "j < length (n # ns)"
    then show "item_outcome benv N (idx + j) ((n # ns) ! j) = Returns ((t # ts) ! j)"
      using t ts(2) by (cases j) auto
  qed
  show ?case
    apply (rule exI[of _ "t # ts"])
    using ts each by auto
qed

lemma batch_loop_total:
  assumes cb: "outer_callbacks_return benv"
  shows "(\<forall>j < length ns. \<exists>t. item_outcome benv N (idx + j) (ns ! j) = Returns t) \<Longrightarrow>
     \<exists>st'. batch_loop benv N idx ns st = Returns st'"
proof (induction ns arbitrary: idx st)
  case Nil
  show ?case by simp
next
  case (Cons n ns)
  from Cons.prems have "\<exists>t. item_outcome benv N (idx + 0) ((n # ns) ! 0) = Returns t"
    by (metis length_greater_0_conv list.distinct(1))
  then obtain t where t: "item_outcome benv N idx n = Returns t" by auto
  have "\<forall>j < length ns. \<exists>t. item_outcome benv N (Suc idx + j) (ns ! j) = Returns t"
  proof (intro allI impI)
    fix j assume "j < length ns"
    then have "\<exists>t. item_outcome benv N (idx + Suc j) ((n # ns) ! Suc j) = Returns t"
      using Cons.prems by (metis Suc_less_eq length_Cons)
    then show "\<exists>t. item_outcome benv N (Suc idx + j) (ns ! j) = Returns t" by simp
  qed
  from Cons.IH[OF this] show ?case
    by (cases st) (simp add: process_item_quiet[OF cb] t)
qed

lemma item_outcome_total:
  "item_behaves benv N idx n \<Longrightarrow> \<exists>t. item_outcome benv N idx n = Returns t"
  by (auto simp: item_behaves_def item_outcome_def try_item_def split: outcome.splits option.splits)

lemma item_outcome_raise:
  "item_outcome benv N idx n = Returns t \<Longrightarrow> validate_nsn n \<Longrightarrow>
   item_workflow benv N idx (format_nsn_with_dashes n) = Raises e \<Longrightarrow>
     item_status (entry t) = Item_error \<and> error_message (entry t) = Some (str_exn e) \<and>
     successful_added t = 0 \<and> failed_added t = 1"
  by (auto simp: item_outcome_def try_item_def split: if_splits)

lemma item_outcome_save_raise:
  "item_outcome benv N idx n = Returns t \<Longrightarrow> validate_nsn n \<Longrightarrow>
   item_workflow benv N idx (format_nsn_with_dashes n) = Returns r \<Longrightarrow>
   save_result benv (format_nsn_with_dashes n) r = Some e \<Longrightarrow>
     item_status (entry t) = Item_error \<and> error_message (entry t) = Some (str_exn e)"
  by (auto simp: item_outcome_def try_item_def split: if_splits)

lemma item_outcome_success:
  "item_outcome benv N idx n = Returns t \<Longrightarrow> validate_nsn n \<Longrightarrow>
   item_workflow benv N idx (format_nsn_with_dashes n) = Returns r \<Longrightarrow>
   save_result benv (format_nsn_with_dashes n) r = None \<Longrightarrow>
     item_status (entry t) = Item_success \<and> item_result (entry t) = Some r \<and>
     successful_added t = 1 \<and> failed_added t = 0"
  by (auto simp: item_outcome_def try_item_def split: if_splits)

lemma scrape_batch_Returns:
  assumes cb: "outer_callbacks_return benv"
    and run: "scrape_batch benv nsns = Returns (br, tr)"
  shows "\<exists>ts. length ts = length nsns \<and>
       (\<forall>j < length nsns. item_outcome benv (length nsns) (Suc j) (nsns ! j) = Returns (ts ! j)) \<and>
       batch_results br = map entry ts \<and>
       successful br = sum_list (map successful_added ts) \<and>
       failed br = sum_list (map failed_added ts) \<and>
       processed br = length nsns \<and> total_nsns br = length nsns \<and>
       filter (\<lambda>ev. \<exists>x. ev = Workflow_invoked x) tr =
         filter (\<lambda>ev. \<exists>x. ev = Workflow_invoked x) (concat (map events ts))"
proof -
  from run obtain br0 where
    loop: "batch_loop benv (length nsns) 1 nsns (new_batch benv nsns, []) = Returns (br0, tr)"
    and br: "br = br0\<lparr>completed_at := Some (batch_timestamp benv)\<rparr>"
    by (auto simp: scrape_batch_def split: outcome.splits)
  from batch_loop_Returns[OF cb loop] show ?thesis
    by (simp add: br new_batch_def)
qed

lemma scrape_batch_total:
  assumes cb: "outer_callbacks_return benv"
    and beh: "\<forall>j < length nsns. item_behaves benv (length nsns) (Suc j) (nsns ! j)"
  shows "\<exists>br tr. scrape_batch benv nsns = Returns (br, tr)"
proof -
  have "\<forall>j < length nsns. \<exists>t. item_outcome benv (length nsns) (1 + j) (nsns ! j) = Returns t"
    using beh item_outcome_total by simp
  from batch_loop_total[OF cb this, of "(new_batch benv nsns, [])"]
  show ?thesis by (auto simp: scrape_batch_def)
qed

lemma list5: "length xs = 5 \<Longrightarrow> xs = [xs ! 0, xs ! 1, xs ! 2, xs ! 3, xs ! 4]"
  by (auto simp: list_eq_iff_nth_eq less_Suc_eq numeral_eq_Suc nth_Cons')

text \<open>
  Claim C5, as the code has it. When the callbacks that are called outside the
  \<^verbatim>\<open>try\<close> block return, in a batch where the processing of every item ends (its
  workflow and the saving of its result return or raise an exception derived from
  \<^verbatim>\<open>Exception\<close>), the batch runs to its end: it returns a result with one entry
  for each submitted item, in which every valid item whose workflow raised, or whose
  result could not be saved, has status error with the message of the exception, and
  every valid item whose workflow returned and whose result was saved has status success.
  In particular, for five valid items of which only the third raises, the statuses are
  success, success, error, success, success and the counters are successful = 4 and
  failed = 1.
\<close>

theorem C5_batch_continues:
  assumes cb: "outer_callbacks_return benv"
    and beh: "\<forall>j < length nsns. item_behaves benv (length nsns) (Suc j) (nsns ! j)"
  shows "\<exists>br tr. scrape_batch benv nsns = Returns (br, tr) \<and>
     length (batch_results br) = length nsns \<and> processed br = length nsns \<and>
     (\<forall>j < length nsns. validate_nsn (nsns ! j) \<longrightarrow>
        (\<forall>e. item_workflow benv (length nsns) (Suc j) (format_nsn_with_dashes (nsns ! j)) = Raises e
           \<longrightarrow> item_status (batch_results br ! j) = Item_error \<and>
               error_message (batch_results br ! j) = Some (str_exn e)) \<and>
        (\<forall>r e. item_workflow benv (length nsns) (Suc j) (format_nsn_with_dashes (nsns ! j)) = Returns r \<and>
               save_result benv (format_nsn_with_dashes (nsns ! j)) r = Some e
           \<longrightarrow> item_status (batch_results br ! j) = Item_error \<and>
               error_message (batch_results br ! j) = Some (str_exn e)) \<and>
        (\<forall>r. item_workflow benv (length nsns) (Suc j) (format_nsn_with_dashes (nsns ! j)) = Returns r \<and>
             save_result benv (format_nsn_with_dashes (nsns ! j)) r = None
           \<longrightarrow> item_status (batch_results br ! j) = Item_success \<and>
               item_result (batch_results br ! j) = Some r)) \<and>
     (length nsns = 5 \<and> (\<forall>j < 5. validate_nsn (nsns ! j)) \<and>
      (\<exists>e. item_workflow benv 5 3 (format_nsn_with_dashes (nsns ! 2)) = Raises e) \<and>
      (\<forall>j < 5. j \<noteq> 2 \<longrightarrow>
         (\<exists>r. item_workflow benv 5 (Suc j) (format_nsn_with_dashes (nsns ! j)) = Returns r \<and>
              save_result benv (format_nsn_with_dashes (nsns ! j)) r = None))
      \<longrightarrow> map item_status (batch_results br) =
            [Item_success, Item_success, Item_error, Item_success, Item_success] \<and>
          successful br = 4 \<and> failed br = 1)"
proof -
  from scrape_batch_total[OF cb beh] obtain br tr where
    run: "scrape_batch benv nsns = Returns (br, tr)" by blast
  from scrape_batch_Returns[OF cb run] obtain ts where
    len: "length ts = length nsns" and
    each: "\<And>j. j < length nsns \<Longrightarrow>
             item_outcome benv (length nsns) (Suc j) (nsns ! j) = Returns (ts ! j)" and
    res: "batch_results br = map entry ts" and
    succ: "successful br = sum_list (map successful_added ts)" and
    fail: "failed br = sum_list (map failed_added ts)" and
    proc: "processed br = length nsns" by blast
  have general: "\<forall>j < length nsns. validate_nsn (nsns ! j) \<longrightarrow>
        (\<forall>e. item_workflow benv (length nsns) (Suc j) (format_nsn_with_dashes (nsns ! j)) = Raises e
           \<longrightarrow> item_status (batch_results br ! j) = Item_error \<and>
               error_message (batch_results br ! j) = Some (str_exn e)) \<and>
        (\<forall>r e. item_workflow benv (length nsns) (Suc j) (format_nsn_with_dashes (nsns ! j)) = Returns r \<and>
               save_result benv (format_nsn_with_dashes (nsns ! j)) r = Some e
           \<longrightarrow> item_status (batch_results br ! j) = Item_error \<and>
               error_message (batch_results br ! j) = Some (str_exn e)) \<and>
        (\<forall>r. item_workflow benv (length nsns) (Suc j) (format_nsn_with_dashes (nsns ! j)) = Returns r \<and>
             save_result benv (format_nsn_with_dashes (nsns ! j)) r = None
           \<longrightarrow> item_status (batch_results br ! j) = Item_success \<and>
               item_result (batch_results br ! j) = Some r)"
  proof (intro allI impI conjI)
    fix j e assume j: "j < length nsns" and v: "validate_nsn (nsns ! j)"
      and w: "item_workflow benv (length nsns) (Suc j) (format_nsn_with_dashes (nsns ! j)) = Raises e"
    from item_outcome_raise[OF each[OF j] v w] j len
    show "item_status (batch_results br ! j) = Item_error"
      and "error_message (batch_results br ! j) = Some (str_exn e)"
      by (simp_all add: res)
  next
    fix j r e assume j: "j < length nsns" and v: "validate_nsn (nsns ! j)"
      and w: "item_workflow benv (length nsns) (Suc j) (format_nsn_with_dashes (nsns ! j)) = Returns r \<and>
               save_result benv (format_nsn_with_dashes (nsns ! j)) r = Some e"
    from item_outcome_save_raise[OF each[OF j] v] w j len
    show "item_status (batch_results br ! j) = Item_error"
      and "error_message (batch_results br ! j) = Some (str_exn e)"
      by (simp_all add: res)
  next
    fix j r assume j: "j < length nsns" and v: "validate_nsn (nsns ! j)"
      and w: "item_workflow benv (length nsns) (Suc j) (format_nsn_with_dashes (nsns ! j)) = Returns r \<and>
               save_result benv (format_nsn_with_dashes (nsns ! j)) r = None"
    from item_outcome_success[OF each[OF j] v] w j len
    show "item_status (batch_results br ! j) = Item_success"
      and "item_result (batch_results br ! j) = Some r"
      by (simp_all add: res)
  qed
  have five: "map item_status (batch_results br) =
            [Item_success, Item_success, Item_error, Item_success, Item_success] \<and>
          successful br = 4 \<and> failed br = 1"
    if h: "length nsns = 5 \<and> (\<forall>j < 5. validate_nsn (nsns ! j)) \<and>
      (\<exists>e. item_workflow benv 5 3 (format_nsn_with_dashes (nsns ! 2)) = Raises e) \<and>
      (\<forall>j < 5. j \<noteq> 2 \<longrightarrow>
         (\<exists>r. item_workflow benv 5 (Suc j) (format_nsn_with_dashes (nsns ! j)) = Returns r \<and>
              save_result benv (format_nsn_with_dashes (nsns ! j)) r = None))"
  proof -
    from h have n5: "length nsns = 5" by simp
    have ok: "item_status (entry (ts ! j)) = Item_success \<and> successful_added (ts ! j) = 1 \<and>
              failed_added (ts ! j) = 0" if "j < 5" "j \<noteq> 2" for j
    proof -
      from h that obtain r where
        "item_workflow benv 5 (Suc j) (format_nsn_with_dashes (nsns ! j)) = Returns r"
        "save_result benv (format_nsn_with_dashes (nsns ! j)) r = None" by blast
      moreover have "validate_nsn (nsns ! j)" using h that by blast
      moreover have "item_outcome benv 5 (Suc j) (nsns ! j) = Returns (ts ! j)"
        using each[of j] that n5 by simp
      ultimately show ?thesis using item_outcome_success by blast
    qed
    have bad: "item_status (entry (ts ! 2)) = Item_error \<and> successful_added (ts ! 2) = 0 \<and>
              failed_added (ts ! 2) = 1"
    proof -
      from h obtain e where
        "item_workflow benv 5 (Suc 2) (format_nsn_with_dashes (nsns ! 2)) = Raises e"
        by (auto simp: numeral_3_eq_3)
      moreover have "validate_nsn (nsns ! 2)" using h by simp
      moreover have "item_outcome benv 5 (Suc 2) (nsns ! 2) = Returns (ts ! 2)"
        using each[of 2] n5 by simp
      ultimately show ?thesis using item_outcome_raise by blast
    qed
    have ts5: "ts = [ts ! 0, ts ! 1, ts ! 2, ts ! 3, ts ! 4]"
      using len n5 by (intro list5) simp
    have "map item_status (map entry ts) =
            [Item_success, Item_success, Item_error, Item_success, Item_success]"
      by (subst ts5) (simp add: ok bad)
    moreover have "sum_list (map successful_added ts) = 4"
      by (subst ts5) (simp add: ok bad)
    moreover have "sum_list (map failed_added ts) = 1"
      by (subst ts5) (simp add: ok bad)
    ultimately show ?thesis by (simp add: res succ fail)
  qed
  have lenr: "length (batch_results br) = length nsns" by (simp add: res len)
  show ?thesis
    apply (rule exI[of _ br])
    apply (rule exI[of _ tr])
    apply (intro conjI)
        apply (rule run)
       apply (rule lenr)
      apply (rule proc)
     apply (rule general)
    apply (rule impI)
    apply (rule five)
    apply assumption
    done
qed

lemma base_run_any:
  assumes "\<forall>step msg. cb step msg = None"
  shows "scrape_nsn base_env n cb 0 0 = Returns (base_result_for n)"
  using assms
  by (simp add: scrape_nsn_def stage_a_def gather2_def base_env_def
      base_stage_b stage_c_def run_tasks_def gather_def discover_one_def deadline_of_def
      deadline_reached_def status_of_tasks_def derive_firecrawl_status_def
      counts_as_success_def with_contact_def high_contact_def base_result_for_def
      of_dibbs_def acme1_def)

lemma crashing_run_any:
  assumes "\<forall>step msg. cb step msg = None"
  shows "scrape_nsn crashing_env n cb 0 0 =
           Raises (OtherException ''Target page, context or browser has been closed'')"
  using assms
  by (simp add: scrape_nsn_def stage_a_def gather2_def crashing_env_def base_env_def)

lemma sample_callbacks: "outer_callbacks_return sample_batch_env"
  by (simp add: outer_callbacks_return_def sample_batch_env_def noop_batch_progress_def
      noop_batch_status_def)

lemma sample_nsn_progress: "\<forall>step msg. nsn_progress sample_batch_env N idx step msg = None"
  by (simp add: nsn_progress_def sample_batch_env_def noop_batch_progress_def)

lemma sample_item_workflow:
  "item_workflow sample_batch_env N idx n =
     (if idx = 3 then Raises (OtherException ''Target page, context or browser has been closed'')
      else Returns (base_result_for n))"
  using base_run_any[OF sample_nsn_progress] crashing_run_any[OF sample_nsn_progress]
  by (simp add: item_workflow_def sample_batch_env_def)

lemma five_valid: "\<forall>j < 5. validate_nsn (five_nsns ! j)"
  by (simp add: five_nsns_def validate_nsn_def pattern_without_dashes_def digits_def
      strip_final_newline_def is_digit_def less_Suc_eq numeral_eq_Suc nth_Cons')

lemma sample_save: "save_result sample_batch_env n r = None"
  by (simp add: sample_batch_env_def)

text \<open>
  Witness for C5: five valid items; the browser page of the third item's workflow is
  closed under it and the first fetch raises. The batch returns five entries, the third
  with status error and the message of the exception, and counts four successes and one
  failure.
\<close>

theorem C5_batch_continues_witness:
  "outer_callbacks_return sample_batch_env \<and>
   list_all (\<lambda>j. item_behaves sample_batch_env (length five_nsns) (Suc j) (five_nsns ! j))
     [0..<length five_nsns] \<and>
   (\<exists>br tr. scrape_batch sample_batch_env five_nsns = Returns (br, tr) \<and>
      length (batch_results br) = 5 \<and>
      map item_status (batch_results br) =
        [Item_success, Item_success, Item_error, Item_success, Item_success] \<and>
      error_message (batch_results br ! 2) =
        Some ''Target page, context or browser has been closed'' \<and>
      successful br = 4 \<and> failed br = 1)"
proof -
  have len: "length five_nsns = 5" by (simp add: five_nsns_def)
  have beh: "\<forall>j < length five_nsns.
      item_behaves sample_batch_env (length five_nsns) (Suc j) (five_nsns ! j)"
    by (simp add: item_behaves_def sample_item_workflow sample_save)
  have h5: "length five_nsns = 5 \<and> (\<forall>j < 5. validate_nsn (five_nsns ! j)) \<and>
      (\<exists>e. item_workflow sample_batch_env 5 3 (format_nsn_with_dashes (five_nsns ! 2)) = Raises e) \<and>
      (\<forall>j < 5. j \<noteq> 2 \<longrightarrow>
         (\<exists>r. item_workflow sample_batch_env 5 (Suc j) (format_nsn_with_dashes (five_nsns ! j)) = Returns r \<and>
              save_result sample_batch_env (format_nsn_with_dashes (five_nsns ! j)) r = None))"
    using five_valid len by (auto simp: sample_item_workflow sample_save)
  from C5_batch_continues[OF sample_callbacks beh] obtain br tr where
    all: "scrape_batch sample_batch_env five_nsns = Returns (br, tr) \<and>
     length (batch_results br) = length five_nsns \<and> processed br = length five_nsns \<and>
     (\<forall>j < length five_nsns. validate_nsn (five_nsns ! j) \<longrightarrow>
        (\<forall>e. item_workflow sample_batch_env (length five_nsns) (Suc j) (format_nsn_with_dashes (five_nsns ! j)) = Raises e
           \<longrightarrow> item_status (batch_results br ! j) = Item_error \<and>
               error_message (batch_results br ! j) = Some (str_exn e)) \<and>
        (\<forall>r e. item_workflow sample_batch_env (length five_nsns) (Suc j) (format_nsn_with_dashes (five_nsns ! j)) = Returns r \<and>
               save_result sample_batch_env (format_nsn_with_dashes (five_nsns ! j)) r = Some e
           \<longrightarrow> item_status (batch_results br ! j) = Item_error \<and>
               error_message (batch_results br ! j) = Some (str_exn e)) \<and>
        (\<forall>r. item_workflow sample_batch_env (length five_nsns) (Suc j) (format_nsn_with_dashes (five_nsns ! j)) = Returns r \<and>
             save_result sample_batch_env (format_nsn_with_dashes (five_nsns ! j)) r = None
           \<longrightarrow> item_status (batch_results br ! j) = Item_success \<and>
               item_result (batch_results br ! j) = Some r)) \<and>
     (length five_nsns = 5 \<and> (\<forall>j < 5. validate_nsn (five_nsns ! j)) \<and>
      (\<exists>e. item_workflow sample_batch_env 5 3 (format_nsn_with_dashes (five_nsns ! 2)) = Raises e) \<and>
      (\<forall>j < 5. j \<noteq> 2 \<longrightarrow>
         (\<exists>r. item_workflow sample_batch_env 5 (Suc j) (format_nsn_with_dashes (five_nsns ! j)) = Returns r \<and>
              save_result sample_batch_env (format_nsn_with_dashes (five_nsns ! j)) r = None))
      \<longrightarrow> map item_status (batch_results br) =
            [Item_success, Item_success, Item_error, Item_success, Item_success] \<and>
          successful br = 4 \<and> failed br = 1)"
    by (elim exE) (rule that, assumption)
  from all have run: "scrape_batch sample_batch_env five_nsns = Returns (br, tr)" by (rule conjunct1)
  from all have lenr: "length (batch_results br) = length five_nsns" by blast
  from all have gen: "\<forall>j < length five_nsns. validate_nsn (five_nsns ! j) \<longrightarrow>
        (\<forall>e. item_workflow sample_batch_env (length five_nsns) (Suc j)
               (format_nsn_with_dashes (five_nsns ! j)) = Raises e
           \<longrightarrow> item_status (batch_results br ! j) = Item_error \<and>
               error_message (batch_results br ! j) = Some (str_exn e))"
    by (elim conjE) blast
  from all have five: "length five_nsns = 5 \<and> (\<forall>j < 5. validate_nsn (five_nsns ! j)) \<and>
      (\<exists>e. item_workflow sample_batch_env 5 3 (format_nsn_with_dashes (five_nsns ! 2)) = Raises e) \<and>
      (\<forall>j < 5. j \<noteq> 2 \<longrightarrow>
         (\<exists>r. item_workflow sample_batch_env 5 (Suc j) (format_nsn_with_dashes (five_nsns ! j)) = Returns r \<and>
              save_result sample_batch_env (format_nsn_with_dashes (five_nsns ! j)) r = None))
      \<longrightarrow> map item_status (batch_results br) =
            [Item_success, Item_success, Item_error, Item_success, Item_success] \<and>
          successful br = 4 \<and> failed br = 1"
    by (elim conjE) assumption
  from five h5 have res: "map item_status (batch_results br) =
            [Item_success, Item_success, Item_error, Item_success, Item_success] \<and>
          successful br = 4 \<and> failed br = 1" by blast
  have "error_message (batch_results br ! 2) =
        Some ''Target page, context or browser has been closed''"
    using gen five_valid len by (simp add: sample_item_workflow)
  moreover have "list_all (\<lambda>j. item_behaves sample_batch_env (length five_nsns) (Suc j) (five_nsns ! j))
     [0..<length five_nsns]"
    using beh by (simp add: list_all_iff)
  ultimately show ?thesis
    using run lenr len res sample_callbacks by auto
qed






lemma one_valid: "validate_nsn ''1000000000001''"
  by (simp add: validate_nsn_def pattern_without_dashes_def digits_def
      strip_final_newline_def is_digit_def)

lemma one_formatted: "format_nsn_with_dashes ''1000000000001'' = ''1000-00-000-0001''"
  by (simp add: format_nsn_with_dashes_def)




subsection \<open>A callback that raises\<close>

lemma full_disk_progress:
  "nsn_progress full_disk_env N idx = nsn_progress sample_batch_env N idx"
  by (intro ext) (simp add: nsn_progress_def full_disk_env_def)

lemma full_disk_item_workflow:
  "item_workflow full_disk_env N idx n = item_workflow sample_batch_env N idx n"
  by (simp add: item_workflow_def full_disk_progress) (simp add: full_disk_env_def)

lemma full_disk_first_item:
  "process_item full_disk_env N (Suc 0) ''1000000000001'' st = Raises disk_full"
proof -
  have p: "progress_cb full_disk_env i k m = None" for i k m
    by (simp add: full_disk_env_def sample_batch_env_def noop_batch_progress_def)
  have t: "try_item full_disk_env N (Suc 0) ''1000-00-000-0001'' =
      Returns \<lparr>entry = \<lparr>item_nsn = ''1000-00-000-0001'', item_status = Item_success,
                          item_result = Some (base_result_for ''1000-00-000-0001''),
                          error_message = None,
                          processed_at = Some (batch_timestamp full_disk_env)\<rparr>,
               successful_added = 1, failed_added = 0,
               events = [Workflow_invoked ''1000-00-000-0001'', Saved ''1000-00-000-0001'']\<rparr>"
    by (simp add: try_item_def full_disk_item_workflow sample_item_workflow)
       (simp add: full_disk_env_def sample_batch_env_def)
  have s1: "status_cb full_disk_env (Suc 0) (processing_entry ''1000-00-000-0001'') = None"
    by (simp add: full_disk_env_def processing_entry_def)
  have s2: "status_cb full_disk_env (Suc 0)
      \<lparr>item_nsn = ''1000-00-000-0001'', item_status = Item_success,
                          item_result = Some (base_result_for ''1000-00-000-0001''),
                          error_message = None,
                          processed_at = Some (batch_timestamp full_disk_env)\<rparr> = Some disk_full"
    by (simp add: full_disk_env_def)
  show ?thesis
    by (simp add: process_item_def Let_def one_valid p one_formatted t s1 s2)
qed

text \<open>
  Counterexample to C5 as stated: five valid items and a status callback that cannot
  write the first successful result. The exception of the callback is raised outside the
  \<^verbatim>\<open>try\<close> block, after the first item, and leaves \<^verbatim>\<open>scrape_batch\<close>: no
  entry is recorded for it and the four other items are not processed.
\<close>

theorem C5_callback_counterexample:
  "scrape_batch full_disk_env five_nsns = Raises disk_full"
proof -
  have "batch_loop full_disk_env N (Suc 0) five_nsns st = Raises disk_full" for N st
    by (simp add: five_nsns_def full_disk_first_item)
  then show ?thesis
    by (simp add: scrape_batch_def)
qed

section \<open>The browser pool: slots, contexts and waits\<close>

lemma started_pool_invariants:
  "slots_accounted cfg (started_pool cfg)" "holders_phases (started_pool cfg)"
  "contexts_held (started_pool cfg)" "queue_exact (started_pool cfg)"
  "counter_exact (started_pool cfg)"
  by (simp_all add: slots_accounted_def holders_phases_def contexts_held_def queue_exact_def
      counter_exact_def started_pool_def)

lemma step_holders_phases:
  assumes h: "holders_phases s" and st: "step cfg s ev = Some s'"
  shows "holders_phases s'"
proof (cases ev)
  case (Call i t)
  with h st show ?thesis
    by (auto simp: holders_phases_def Let_def split: if_splits)
next
  case (Grant i)
  with h st show ?thesis
    by (auto simp: holders_phases_def split: phase.splits if_splits)
next
  case (Timeout i)
  with h st show ?thesis
    by (auto simp: holders_phases_def split: phase.splits if_splits)
next
  case (Cancel_wait i)
  with h st show ?thesis
    by (auto simp: holders_phases_def split: phase.splits if_splits)
next
  case (Open i r)
  with h st show ?thesis
    by (auto simp: holders_phases_def release_slot_def split: if_splits option.splits)
next
  case (Leave i k c)
  with h st show ?thesis
    by (cases c) (auto simp: holders_phases_def release_slot_def split: if_splits)
next
  case Tick
  with h st show ?thesis by (auto simp: holders_phases_def)
next
  case Stop
  with h st show ?thesis by (auto simp: holders_phases_def split: if_splits)
next
  case Start
  with h st show ?thesis by (auto simp: holders_phases_def split: if_splits)
qed

lemma release_slot_accounted:
  assumes a: "slots_accounted cfg s" and h: "i \<in> holders s"
  shows "slots_accounted cfg (release_slot i out s)"
proof -
  from a have fin: "finite (holders s)"
    and cnt: "card (holders s) + semaphore s = MAX_BROWSER_PAGES cfg"
    by (auto simp: slots_accounted_def)
  have "card (holders s - {i}) = card (holders s) - 1" using fin h by simp
  moreover have "card (holders s) > 0" using fin h by (auto simp: card_gt_0_iff)
  ultimately have "card (holders s - {i}) + (semaphore s + 1) = MAX_BROWSER_PAGES cfg"
    using cnt by simp
  with fin show ?thesis by (simp add: slots_accounted_def release_slot_def)
qed

lemma step_slots_accounted:
  assumes a: "slots_accounted cfg s" and hp: "holders_phases s"
    and st: "step cfg s ev = Some s'" and ns: "ev = Start \<longrightarrow> started s"
  shows "slots_accounted cfg s'"
proof (cases ev)
  case (Call i t)
  with a st show ?thesis
    by (auto simp: slots_accounted_def Let_def split: if_splits)
next
  case (Grant i)
  from st Grant obtain dl t where ph: "phase s i = Waiting_for_slot dl t" and pos: "semaphore s > 0"
    and s': "s' = s\<lparr>semaphore := semaphore s - 1, waiting := waiting s - 1,
                    queue := removeAll i (queue s), holders := insert i (holders s),
                    phase := (phase s)(i := Slot_held)\<rparr>"
    by (auto split: phase.splits if_splits)
  from hp ph have ni: "i \<notin> holders s" by (auto simp: holders_phases_def)
  from a have fin: "finite (holders s)" by (simp add: slots_accounted_def)
  have "card (insert i (holders s)) + (semaphore s - 1) = card (holders s) + semaphore s"
    using ni fin pos by simp
  with a show ?thesis
    unfolding s' by (auto simp: slots_accounted_def)
next
  case (Timeout i)
  with a st show ?thesis
    by (auto simp: slots_accounted_def split: phase.splits if_splits)
next
  case (Cancel_wait i)
  with a st show ?thesis
    by (auto simp: slots_accounted_def split: phase.splits if_splits)
next
  case (Open i r)
  show ?thesis
  proof (cases r)
    case None
    with a st Open show ?thesis
      by (auto simp: slots_accounted_def split: if_splits)
  next
    case (Some e)
    with st Open have ph: "phase s i = Slot_held" and s': "s' = release_slot i (Some e) s"
      by (auto split: if_splits)
    from hp ph have "i \<in> holders s" by (auto simp: holders_phases_def)
    from release_slot_accounted[OF a this] show ?thesis by (simp add: s')
  qed
next
  case (Leave i k c)
  with st have ph: "phase s i = In_use" by (auto split: if_splits)
  from hp ph have h: "i \<in> holders s" by (auto simp: holders_phases_def)
  show ?thesis
  proof (cases c)
    case Closed
    have a': "slots_accounted cfg (s\<lparr>contexts := contexts s - {i}\<rparr>)"
      using a by (simp add: slots_accounted_def)
    have h': "i \<in> holders (s\<lparr>contexts := contexts s - {i}\<rparr>)" using h by simp
    from st Leave ph Closed have "s' = release_slot i (exit_error k) (s\<lparr>contexts := contexts s - {i}\<rparr>)"
      by simp
    with release_slot_accounted[OF a' h'] show ?thesis by simp
  next
    case (Close_raised e)
    show ?thesis
    proof (cases "is_Exception e")
      case True
      with st Leave ph Close_raised have "s' = release_slot i (exit_error k) s" by simp
      with release_slot_accounted[OF a h] show ?thesis by simp
    next
      case False
      with st Leave ph Close_raised have "s' = s\<lparr>phase := (phase s)(i := Left (Some e))\<rparr>" by simp
      with a show ?thesis by (simp add: slots_accounted_def)
    qed
  qed
next
  case Tick
  with a st show ?thesis by (auto simp: slots_accounted_def)
next
  case Stop
  with a st show ?thesis by (auto simp: slots_accounted_def split: if_splits)
next
  case Start
  with a st ns show ?thesis by auto
qed

lemma step_started:
  "step cfg s ev = Some s' \<Longrightarrow> ev \<noteq> Start \<Longrightarrow> ev \<noteq> Stop \<Longrightarrow> started s' = started s"
  by (cases ev)
    (auto simp: Let_def release_slot_def
      split: if_splits phase.splits option.splits close_result.splits)

lemma no_start_no_restart: "Start \<notin> set evs \<Longrightarrow> no_restart evs"
proof (induction evs)
  case Nil
  show ?case by simp
next
  case (Cons a evs)
  then show ?case by (cases a) auto
qed

lemma no_restart_tail: "no_restart (ev # evs) \<Longrightarrow> no_restart evs"
  by (cases ev) (auto intro: no_start_no_restart)

lemma run_holders_phases:
  "holders_phases s \<Longrightarrow> run cfg s evs = Some s' \<Longrightarrow> holders_phases s'"
proof (induction evs arbitrary: s)
  case Nil
  then show ?case by simp
next
  case (Cons ev evs)
  from Cons.prems(2) obtain s1 where st: "step cfg s ev = Some s1" and rest: "run cfg s1 evs = Some s'"
    by (auto split: option.splits)
  from Cons.IH[OF step_holders_phases[OF Cons.prems(1) st] rest] show ?case .
qed

lemma run_slots_accounted:
  assumes "slots_accounted cfg s" "holders_phases s" "run cfg s evs = Some s'" "no_restart evs"
    "\<not> started s \<longrightarrow> Start \<notin> set evs"
  shows "slots_accounted cfg s'"
  using assms
proof (induction evs arbitrary: s)
  case Nil
  then show ?case by simp
next
  case (Cons ev evs)
  from Cons.prems(3) obtain s1 where st: "step cfg s ev = Some s1" and rest: "run cfg s1 evs = Some s'"
    by (auto split: option.splits)
  have ns: "ev = Start \<longrightarrow> started s" using Cons.prems(5) by auto
  have a1: "slots_accounted cfg s1"
    by (rule step_slots_accounted[OF Cons.prems(1) Cons.prems(2) st ns])
  have h1: "holders_phases s1" by (rule step_holders_phases[OF Cons.prems(2) st])
  have nr: "no_restart evs" by (rule no_restart_tail[OF Cons.prems(4)])
  have "\<not> started s1 \<longrightarrow> Start \<notin> set evs"
  proof (cases "ev = Stop")
    case True
    with Cons.prems(4) show ?thesis by simp
  next
    case False
    show ?thesis
    proof (cases "ev = Start")
      case True
      with st ns show ?thesis by auto
    next
      case False
      with \<open>ev \<noteq> Stop\<close> st have "started s1 = started s" by (simp add: step_started)
      with Cons.prems(5) show ?thesis by auto
    qed
  qed
  from Cons.IH[OF a1 h1 rest nr this] show ?case .
qed

lemma step_contexts_held:
  assumes c: "contexts_held s" and hp: "holders_phases s"
    and st: "step cfg s ev = Some s'" and cl: "close_returns ev"
  shows "contexts_held s'"
proof (cases ev)
  case (Call i t)
  with c st show ?thesis
    by (auto simp: contexts_held_def Let_def split: if_splits)
next
  case (Grant i)
  with c st show ?thesis
    by (auto simp: contexts_held_def split: phase.splits if_splits)
next
  case (Timeout i)
  with c st show ?thesis
    by (auto simp: contexts_held_def split: phase.splits if_splits)
next
  case (Cancel_wait i)
  with c st show ?thesis
    by (auto simp: contexts_held_def split: phase.splits if_splits)
next
  case (Open i r)
  with st have ph: "phase s i = Slot_held" by (auto split: if_splits)
  with hp have "i \<in> holders s" by (auto simp: holders_phases_def)
  with c st Open show ?thesis
    by (auto simp: contexts_held_def release_slot_def split: if_splits option.splits)
next
  case (Leave i k cr)
  with c st cl show ?thesis
    by (cases cr) (auto simp: contexts_held_def release_slot_def split: if_splits)
next
  case Tick
  with c st show ?thesis by (auto simp: contexts_held_def)
next
  case Stop
  with c st show ?thesis by (auto simp: contexts_held_def split: if_splits)
next
  case Start
  with c st show ?thesis by (auto simp: contexts_held_def split: if_splits)
qed

lemma run_contexts_held:
  "contexts_held s \<Longrightarrow> holders_phases s \<Longrightarrow> run cfg s evs = Some s' \<Longrightarrow>
   list_all close_returns evs \<Longrightarrow> contexts_held s'"
proof (induction evs arbitrary: s)
  case Nil
  then show ?case by simp
next
  case (Cons ev evs)
  from Cons.prems(3) obtain s1 where st: "step cfg s ev = Some s1" and rest: "run cfg s1 evs = Some s'"
    by (auto split: option.splits)
  from Cons.prems(4) have h: "close_returns ev" and c: "list_all close_returns evs" by simp_all
  from Cons.IH[OF step_contexts_held[OF Cons.prems(1) Cons.prems(2) st h]
      step_holders_phases[OF Cons.prems(2) st] rest c] show ?case .
qed

text \<open>
  A pool that is started once and whose contexts all close when asked: the open contexts
  never exceed the maximum, and the slots held are those of the tasks between the grant
  and the exit of their block.
\<close>

lemma pool_cap_when_closes_return:
  assumes run: "run cfg (started_pool cfg) evs = Some s" and nr: "no_restart evs"
    and cl: "list_all close_returns evs"
  shows "card (contexts s) \<le> MAX_BROWSER_PAGES cfg \<and>
         card (holders s) + semaphore s = MAX_BROWSER_PAGES cfg \<and>
         holders s = {i. phase s i = Slot_held \<or> phase s i = In_use}"
proof -
  have a: "slots_accounted cfg s"
    by (rule run_slots_accounted[OF started_pool_invariants(1,2) run nr])
       (simp add: started_pool_def)
  have hp: "holders_phases s" by (rule run_holders_phases[OF started_pool_invariants(2) run])
  have ch: "contexts_held s"
    by (rule run_contexts_held[OF started_pool_invariants(3) started_pool_invariants(2) run cl])
  from a have fin: "finite (holders s)"
    and cnt: "card (holders s) + semaphore s = MAX_BROWSER_PAGES cfg"
    by (auto simp: slots_accounted_def)
  from ch have "contexts s \<subseteq> holders s" by (simp add: contexts_held_def)
  with fin have "card (contexts s) \<le> card (holders s)" by (simp add: card_mono)
  moreover have "holders s = {i. phase s i = Slot_held \<or> phase s i = In_use}"
    using hp ch by (auto simp: holders_phases_def contexts_held_def)
  ultimately show ?thesis using cnt by simp
qed






lemma leak_run:
  "\<exists>s. run small_pool (started_pool small_pool) leak_trace = Some s \<and>
       phase s 0 = Left (Some CancelledError) \<and> phase s 1 = Waiting_for_slot 2 2 \<and>
       semaphore s = 0 \<and> holders s = {0} \<and> clock s = 2 \<and>
       step small_pool s (Grant 1) = None \<and> waiting s = 1"
  by (simp add: leak_trace_def started_pool_def small_pool_def)

lemma restart_run:
  "\<exists>s. run small_pool (started_pool small_pool) restart_trace = Some s \<and>
       contexts s = {1, 2} \<and> phase s 1 = In_use \<and> phase s 2 = In_use"
  by (auto simp: restart_trace_def started_pool_def small_pool_def release_slot_def)

text \<open>
  Claim C2, evaluated where it fails, on a pool of one slot. Task 0 is cancelled inside
  its block and cancelled again while it awaits \<^verbatim>\<open>ctx.close()\<close>: the exception is
  not one the handler catches, the release is not reached, and task 0 has left
  \<^verbatim>\<open>get_context\<close> with the slot still taken. The semaphore stays at 0: task 1,
  which asks afterwards, cannot be granted a slot and is refused at its deadline. In the
  second run the pool is stopped and started again while task 0 holds the slot; the new
  semaphore has one slot and the release of task 0 adds a second, so that tasks 1 and 2
  have a context open at the same time, with a maximum of one.
\<close>

theorem C2_slot_lost_when_close_is_cancelled:
  "(\<exists>s. run small_pool (started_pool small_pool) leak_trace = Some s \<and>
        phase s 0 = Left (Some CancelledError) \<and> semaphore s = 0 \<and> holders s = {0} \<and>
        phase s 1 = Waiting_for_slot 2 2 \<and> clock s = 2 \<and>
        step small_pool s (Grant 1) = None \<and>
        (\<exists>s'. step small_pool s (Timeout 1) = Some s' \<and>
              phase s' 1 = Left (Some (pool_busy_error 2 1 0)) \<and> semaphore s' = 0)) \<and>
   (\<exists>s. run small_pool (started_pool small_pool) restart_trace = Some s \<and>
        contexts s = {1, 2} \<and> MAX_BROWSER_PAGES small_pool < card (contexts s))"
proof (intro conjI)
  from leak_run obtain s where
    s: "run small_pool (started_pool small_pool) leak_trace = Some s"
       "phase s 0 = Left (Some CancelledError)" "phase s 1 = Waiting_for_slot 2 2"
       "semaphore s = 0" "holders s = {0}" "clock s = 2"
       "step small_pool s (Grant 1) = None" and w: "waiting s = 1" by blast
  have "\<exists>s'. step small_pool s (Timeout 1) = Some s' \<and>
              phase s' 1 = Left (Some (pool_busy_error 2 1 0)) \<and> semaphore s' = 0"
    using s(3,4,6) w by (simp add: small_pool_def)
  with s show "\<exists>s. run small_pool (started_pool small_pool) leak_trace = Some s \<and>
        phase s 0 = Left (Some CancelledError) \<and> semaphore s = 0 \<and> holders s = {0} \<and>
        phase s 1 = Waiting_for_slot 2 2 \<and> clock s = 2 \<and>
        step small_pool s (Grant 1) = None \<and>
        (\<exists>s'. step small_pool s (Timeout 1) = Some s' \<and>
              phase s' 1 = Left (Some (pool_busy_error 2 1 0)) \<and> semaphore s' = 0)"
    by blast
next
  from restart_run obtain s where
    s: "run small_pool (started_pool small_pool) restart_trace = Some s" "contexts s = {1, 2}"
    by blast
  have "MAX_BROWSER_PAGES small_pool < card (contexts s)"
    by (simp add: s(2) small_pool_def)
  with s show "\<exists>s. run small_pool (started_pool small_pool) restart_trace = Some s \<and>
        contexts s = {1, 2} \<and> MAX_BROWSER_PAGES small_pool < card (contexts s)"
    by blast
qed



lemma str_nat_digit: "n < 10 \<Longrightarrow> str_nat n = [char_of (48 + n)]"
  by (subst str_nat.simps) simp



end
